theory Spec2Isabelle
  imports Main "HOL-Library.Word"
begin

unbundle bit_operations_syntax

section \<open>Bytes, C strings and the actions of the server\<close>

text \<open>
  The server of \<^verbatim>\<open>httpd-epoll.c\<close> works on \<^verbatim>\<open>char\<close> arrays. An array is modelled as
  the list of its bytes; a C string inside it ends at the first \<^verbatim>\<open>'\0'\<close>. Reading an
  array past its last byte is undefined in C, and the model reports it as a fault
  instead of inventing a value.
\<close>

definition NUL :: char where "NUL = CHR 0x00"
definition SP :: char where "SP = CHR 0x20"
definition CR :: char where "CR = CHR 0x0D"
definition LF :: char where "LF = CHR 0x0A"
definition HT :: char where "HT = CHR 0x09"
definition QUOTE :: char where "QUOTE = CHR 0x27"
definition CRLF :: string where "CRLF = [CR, LF]"

datatype fault = ReadPastBuffer

text \<open>\<^verbatim>\<open>BUFFER_SIZE\<close> of the source.\<close>

definition BUFFER_SIZE :: nat where "BUFFER_SIZE = 4096"

text \<open>
  The outcome of one \<^verbatim>\<open>read\<close> call on a non-blocking socket: a positive number of
  bytes, 0 (the peer closed the stream), or -1 with \<^verbatim>\<open>errno\<close>. On Linux
  \<^verbatim>\<open>EWOULDBLOCK\<close> and \<^verbatim>\<open>EAGAIN\<close> are the same value.
\<close>

datatype errno = EAGAIN | EOTHER

datatype read_result = Bytes string | Eof | Failed errno

text \<open>Outcome of the two \<^verbatim>\<open>fcntl\<close> calls of \<^verbatim>\<open>set_nonblocking\<close>.\<close>

datatype fcntl_outcome = FcntlOk | GetflFails | SetflFails

text \<open>\<^verbatim>\<open>MAX_EVENTS\<close> of the source.\<close>

definition MAX_EVENTS :: nat where "MAX_EVENTS = 64"

text \<open>
  The event bits of \<^verbatim>\<open><sys/epoll.h>\<close> on Linux that the program tests.
\<close>

definition EPOLLIN :: "32 word" where "EPOLLIN = 0x001"
definition EPOLLERR :: "32 word" where "EPOLLERR = 0x008"
definition EPOLLHUP :: "32 word" where "EPOLLHUP = 0x010"

text \<open>
  What the process does to the outside world, in program order: system calls on
  descriptors and lines written to the standard streams.
\<close>

datatype action =
    SysSocket int
  | SysBind int "16 word"
  | SysListen int
  | SysEpollCreate int
  | SysAccept int "int option"
  | SysRead int nat read_result
  | SysWrite int string
  | EpollCtlAdd int int bool
  | EpollCtlDel int int
  | SysClose int
  | Printf string
  | Stderr string
  | Perror string

section \<open>Request parser\<close>

record httpreq =
  "method" :: string
  url :: string

text \<open>
  A \<^verbatim>\<open>for (...; cond(*p); p++);\<close> loop over an array: the number of steps until the
  condition fails, or \<open>None\<close> when the pointer leaves the array first.
\<close>

fun scan :: "(char \<Rightarrow> bool) \<Rightarrow> string \<Rightarrow> nat option" where
  "scan P [] = None"
| "scan P (c # cs) = (if P c then map_option Suc (scan P cs) else Some 0)"

text \<open>
  \<^verbatim>\<open>strncpy(dst, src, n)\<close> into a destination of \<open>n + 1\<close> bytes that \<^verbatim>\<open>memset\<close> has
  zeroed: the C string left in \<^verbatim>\<open>dst\<close> is the source string cut to \<open>n\<close> bytes.
\<close>

definition strncpy :: "string \<Rightarrow> nat \<Rightarrow> string" where
  "strncpy src n = take n (takeWhile (\<lambda>c. c \<noteq> NUL) src)"

text \<open>
  \<^verbatim>\<open>parse_http\<close>. The first argument says whether \<^verbatim>\<open>malloc\<close> succeeded. The result is
  the request (\<open>None\<close> for the \<^verbatim>\<open>NULL\<close> return) together with the array as the
  function leaves it: the two assignments \<^verbatim>\<open>*p = 0\<close> write into the caller's buffer.
\<close>

definition parse_http :: "bool \<Rightarrow> string \<Rightarrow> fault + (httpreq option \<times> string)" where
  "parse_http malloc_ok str =
     (if \<not> malloc_ok then Inr (None, str)
      else case scan (\<lambda>c. c \<noteq> NUL \<and> c \<noteq> SP) str of
        None \<Rightarrow> Inl ReadPastBuffer
      | Some p \<Rightarrow>
          if str ! p \<noteq> SP then Inr (None, str)
          else
            let str1 = str[p := NUL];
                m = strncpy str1 15
            in (case scan (\<lambda>c. c \<noteq> NUL \<and> c \<noteq> SP \<and> c \<noteq> CR \<and> c \<noteq> LF)
                         (drop (Suc p) str1) of
                  None \<Rightarrow> Inl ReadPastBuffer
                | Some k \<Rightarrow>
                    let str2 = str1[Suc p + k := NUL]
                    in Inr (Some \<lparr>method = m, url = strncpy (drop (Suc p) str2) 1023\<rparr>,
                            str2)))"

section \<open>Response builder\<close>

text \<open>Decimal digits of a natural number, and \<^verbatim>\<open>%d\<close> of an \<^verbatim>\<open>int\<close>.\<close>

fun dec :: "nat \<Rightarrow> string" where
  "dec n = (if n < 10 then [''0123456789'' ! n]
            else dec (n div 10) @ [''0123456789'' ! (n mod 10)])"

declare dec.simps [simp del]

definition show_int :: "int \<Rightarrow> string" where
  "show_int i = (if i < 0 then CHR ''-'' # dec (nat (- i)) else dec (nat i))"

text \<open>
  \<^verbatim>\<open>http_send_response\<close>. \<^verbatim>\<open>snprintf\<close> stores at most \<open>BUFFER_SIZE - 1\<close> bytes and a
  terminator in \<^verbatim>\<open>buf\<close> and returns the length \<open>n\<close> the full text would have;
  \<^verbatim>\<open>write\<close> then sends \<open>n\<close> bytes of \<^verbatim>\<open>buf\<close>, which is a read past the array when
  \<open>n\<close> exceeds its size. \<^verbatim>\<open>int body_len = strlen(body)\<close> converts to 32 bits.
\<close>

definition http_send_response ::
  "int \<Rightarrow> int \<Rightarrow> string \<Rightarrow> string option \<Rightarrow> string option \<Rightarrow> fault + action list" where
  "http_send_response fd code status contenttype body =
     (let body1 = (case body of None \<Rightarrow> [] | Some b \<Rightarrow> b);
          contenttype1 = (case contenttype of None \<Rightarrow> ''text/plain'' | Some t \<Rightarrow> t);
          body_len = sint (word_of_nat (length body1) :: 32 word);
          text = ''HTTP/1.1 '' @ show_int code @ '' '' @ status @ CRLF
               @ ''Content-Type: '' @ contenttype1 @ CRLF
               @ ''Content-Length: '' @ show_int body_len @ CRLF
               @ ''Connection: close'' @ CRLF
               @ CRLF
               @ body1;
          n = length text;
          buf = take (BUFFER_SIZE - 1) text @ [NUL]
      in if n \<le> BUFFER_SIZE then Inr [SysWrite fd (take n buf)] else Inl ReadPastBuffer)"

definition html_body :: string where
  "html_body = ''<html><h4>Hello World!!</h4></html>''"

definition json_body :: string where
  \<open>json_body = ''{"message": "Hello World!!!"}''\<close>

text \<open>The line \<^verbatim>\<open>printf("'%s'\t'%s'\n", req->method, req->url)\<close>.\<close>

definition request_log :: "httpreq \<Rightarrow> string" where
  "request_log req = [QUOTE] @ method req @ [QUOTE, HT, QUOTE] @ url req @ [QUOTE, LF]"

text \<open>\<^verbatim>\<open>handle_request\<close>: parse the buffer and answer on the descriptor.\<close>

definition handle_request :: "bool \<Rightarrow> int \<Rightarrow> string \<Rightarrow> fault + action list" where
  "handle_request malloc_ok fd request =
     (case parse_http malloc_ok request of
        Inl f \<Rightarrow> Inl f
      | Inr (None, _) \<Rightarrow>
          http_send_response fd 400 ''Bad Request'' (Some ''text/plain'')
            (Some ''Malformed request'')
      | Inr (Some req, _) \<Rightarrow>
          (case (if method req = ''GET'' then
                   if url req = ''/index.html'' \<or> url req = ''/'' then
                     http_send_response fd 200 ''OK'' (Some ''text/html'') (Some html_body)
                   else if url req = ''/data.json'' then
                     http_send_response fd 200 ''OK'' (Some ''application/json'')
                       (Some json_body)
                   else
                     http_send_response fd 404 ''Not Found'' (Some ''text/plain'')
                       (Some ''File not found!'')
                 else
                   http_send_response fd 405 ''Method Not Allowed'' (Some ''text/plain'')
                     (Some ''Only GET supported''))
           of Inl f \<Rightarrow> Inl f
            | Inr acts \<Rightarrow> Inr (Printf (request_log req) # acts)))"

text \<open>
  The wire form of a response as the specification writes it:
  \<^verbatim>\<open>HTTP/1.1 <code> <reason>\r\nContent-Type: <type>\r\nContent-Length: <n>\r\nConnection: close\r\n\r\n<body>\<close>
  with \<open>n\<close> the number of bytes of the body.
\<close>

definition wire_form :: "nat \<Rightarrow> string \<Rightarrow> string \<Rightarrow> string \<Rightarrow> string" where
  "wire_form code reason ctype body =
     ''HTTP/1.1 '' @ dec code @ '' '' @ reason @ CRLF
     @ ''Content-Type: '' @ ctype @ CRLF
     @ ''Content-Length: '' @ dec (length body) @ CRLF
     @ ''Connection: close'' @ CRLF @ CRLF @ body"

text \<open>The payloads handed to \<^verbatim>\<open>write\<close>, in order.\<close>

fun writes :: "action list \<Rightarrow> string list" where
  "writes [] = []"
| "writes (SysWrite fd bs # as) = bs # writes as"
| "writes (a # as) = writes as"

section \<open>The process and the kernel state it acts on\<close>

text \<open>
  The kernel state the program changes: the interest list of its one epoll instance
  (the readiness registry), the descriptors open in the process, and the actions
  performed so far. The source keeps no connection table of its own: a live
  connection is an open client descriptor.
\<close>

record world =
  registry :: "int set"
  open_fds :: "int list"
  trace :: "action list"

definition emit :: "action \<Rightarrow> world \<Rightarrow> world" where
  "emit a w = w\<lparr>trace := trace w @ [a]\<rparr>"

definition sys_close :: "int \<Rightarrow> world \<Rightarrow> world" where
  "sys_close fd w = emit (SysClose fd) (w\<lparr>open_fds := removeAll fd (open_fds w)\<rparr>)"

text \<open>\<^verbatim>\<open>epoll_ctl(epoll_fd, EPOLL_CTL_ADD, fd, &event)\<close>; the flag says whether it succeeds.\<close>

definition epoll_ctl_add :: "bool \<Rightarrow> int \<Rightarrow> int \<Rightarrow> world \<Rightarrow> world" where
  "epoll_ctl_add ok epoll_fd fd w =
     emit (EpollCtlAdd epoll_fd fd ok)
       (w\<lparr>registry := (if ok then insert fd (registry w) else registry w)\<rparr>)"

text \<open>\<^verbatim>\<open>epoll_ctl(epoll_fd, EPOLL_CTL_DEL, fd, NULL)\<close>.\<close>

definition epoll_ctl_del :: "int \<Rightarrow> int \<Rightarrow> world \<Rightarrow> world" where
  "epoll_ctl_del epoll_fd fd w =
     emit (EpollCtlDel epoll_fd fd) (w\<lparr>registry := registry w - {fd}\<rparr>)"

text \<open>
  A new descriptor is the lowest number that is not open (POSIX). Among the first
  \<open>length fds + 1\<close> numbers one is always free; the default is never reached.
\<close>

definition lowest_free :: "int list \<Rightarrow> int" where
  "lowest_free fds =
     (case find (\<lambda>n. n \<notin> set fds) (map int [0 ..< Suc (length fds)]) of
        Some n \<Rightarrow> n
      | None \<Rightarrow> int (Suc (length fds)))"

text \<open>
  A non-blocking stream socket as \<^verbatim>\<open>read\<close> finds it: the bytes queued for the
  process, and what lies behind them.
\<close>

datatype stream_end = PeerOpen | PeerClosed | SockError

datatype sock = Sock string stream_end

fun sys_read :: "sock \<Rightarrow> nat \<Rightarrow> read_result" where
  "sys_read (Sock q e) count =
     (if q \<noteq> [] \<and> 0 < count then Bytes (take count q)
      else case e of PeerOpen \<Rightarrow> Failed EAGAIN | PeerClosed \<Rightarrow> Eof | SockError \<Rightarrow> Failed EOTHER)"

text \<open>
  The outcome of one \<^verbatim>\<open>accept\<close> call of the accept loop: a connection (with the
  outcomes of the \<^verbatim>\<open>fcntl\<close> calls and of the registration that follow), or a
  failure. An exhausted list is an empty listen queue.
\<close>

datatype accept_outcome = Connection fcntl_outcome bool | AcceptFails errno

text \<open>
  One entry of the array filled by \<^verbatim>\<open>epoll_wait\<close> (\<open>events\<close>, \<open>data_fd\<close>), with what
  the system calls made while handling it will find.
\<close>

record ready_event =
  events :: "32 word"
  data_fd :: int
  alloc_ok :: bool
  incoming :: sock
  pending :: "accept_outcome list"

datatype wait_result = Ready "ready_event list" | WaitFailed

text \<open>How far the process got: it returned from \<^verbatim>\<open>main\<close>, or it waits in \<^verbatim>\<open>epoll_wait\<close>.\<close>

datatype run = Exited int world | Blocked world

section \<open>Accepting and driving connections\<close>

definition set_nonblocking :: "fcntl_outcome \<Rightarrow> int \<Rightarrow> world \<Rightarrow> int \<times> world" where
  "set_nonblocking outcome fd w =
     (case outcome of
        GetflFails \<Rightarrow> (- 1, emit (Perror ''fcntl F_GETFL'') w)
      | SetflFails \<Rightarrow> (- 1, emit (Perror ''fcntl F_SETFL'') w)
      | FcntlOk \<Rightarrow> (0, w))"

fun accept_connections :: "int \<Rightarrow> int \<Rightarrow> accept_outcome list \<Rightarrow> world \<Rightarrow> world" where
  "accept_connections server_fd epoll_fd [] w = emit (SysAccept server_fd None) w"
| "accept_connections server_fd epoll_fd (AcceptFails e # rest) w =
     (let w1 = emit (SysAccept server_fd None) w
      in if e = EAGAIN then w1 else emit (Perror ''accept'') w1)"
| "accept_connections server_fd epoll_fd (Connection outcome add_ok # rest) w =
     (let client_fd = lowest_free (open_fds w);
          w1 = emit (SysAccept server_fd (Some client_fd))
                 (w\<lparr>open_fds := client_fd # open_fds w\<rparr>);
          w2 = emit (Printf (''New connection: fd='' @ show_int client_fd @ [LF])) w1;
          (r, w3) = set_nonblocking outcome client_fd w2
      in if r = - 1 then accept_connections server_fd epoll_fd rest (sys_close client_fd w3)
         else
           let w4 = epoll_ctl_add add_ok epoll_fd client_fd w3
           in if \<not> add_ok then
                accept_connections server_fd epoll_fd rest
                  (sys_close client_fd (emit (Perror ''epoll_ctl: add client'') w4))
              else accept_connections server_fd epoll_fd rest w4)"

text \<open>
  \<^verbatim>\<open>handle_client_data\<close>: one \<^verbatim>\<open>read\<close> of at most \<open>BUFFER_SIZE - 1\<close> bytes into a
  local array. After a positive read the array holds the bytes and the terminator
  written by \<^verbatim>\<open>buffer[bytes_read] = '\0'\<close>; nothing behind it is initialised.
\<close>

definition handle_client_data ::
  "bool \<Rightarrow> sock \<Rightarrow> int \<Rightarrow> int \<Rightarrow> world \<Rightarrow> fault + world" where
  "handle_client_data malloc_ok s client_fd epoll_fd w =
     (let r = sys_read s (BUFFER_SIZE - 1);
          w1 = emit (SysRead client_fd (BUFFER_SIZE - 1) r) w
      in case r of
           Eof \<Rightarrow>
             Inr (sys_close client_fd (epoll_ctl_del epoll_fd client_fd
               (emit (Printf (''Connection closed: fd='' @ show_int client_fd @ [LF])) w1)))
         | Failed e \<Rightarrow>
             Inr (sys_close client_fd (epoll_ctl_del epoll_fd client_fd
               (if e \<noteq> EAGAIN then emit (Perror ''read'') w1 else w1)))
         | Bytes bs \<Rightarrow>
             (case handle_request malloc_ok client_fd (bs @ [NUL]) of
                Inl f \<Rightarrow> Inl f
              | Inr acts \<Rightarrow>
                  Inr (sys_close client_fd (epoll_ctl_del epoll_fd client_fd
                    (w1\<lparr>trace := trace w1 @ acts\<rparr>)))))"

section \<open>Event loop\<close>

text \<open>The \<^verbatim>\<open>for\<close> loop of \<^verbatim>\<open>main\<close> over the events of one \<^verbatim>\<open>epoll_wait\<close>.\<close>

fun process_events :: "int \<Rightarrow> int \<Rightarrow> ready_event list \<Rightarrow> world \<Rightarrow> fault + world" where
  "process_events server_fd epoll_fd [] w = Inr w"
| "process_events server_fd epoll_fd (e # es) w =
     (let fd = data_fd e
      in if events e AND (EPOLLERR OR EPOLLHUP) \<noteq> 0 then
           process_events server_fd epoll_fd es
             (sys_close fd (epoll_ctl_del epoll_fd fd
               (emit (Stderr (''epoll error on fd '' @ show_int fd @ [LF])) w)))
         else if fd = server_fd then
           process_events server_fd epoll_fd es
             (accept_connections server_fd epoll_fd (pending e) w)
         else if events e AND EPOLLIN \<noteq> 0 then
           (case handle_client_data (alloc_ok e) (incoming e) fd epoll_fd w of
              Inl f \<Rightarrow> Inl f
            | Inr w' \<Rightarrow> process_events server_fd epoll_fd es w')
         else process_events server_fd epoll_fd es w)"

text \<open>
  The \<^verbatim>\<open>while (1)\<close> loop of \<^verbatim>\<open>main\<close>, run on the results of successive
  \<^verbatim>\<open>epoll_wait\<close> calls; the kernel stores at most \<open>MAX_EVENTS\<close> entries per call.
  When the list is used up the process is waiting in \<^verbatim>\<open>epoll_wait\<close>.
\<close>

fun event_loop :: "int \<Rightarrow> int \<Rightarrow> wait_result list \<Rightarrow> world \<Rightarrow> fault + run" where
  "event_loop server_fd epoll_fd [] w = Inr (Blocked w)"
| "event_loop server_fd epoll_fd (WaitFailed # rest) w =
     Inr (Exited 0 (sys_close epoll_fd (sys_close server_fd (emit (Perror ''epoll_wait'') w))))"
| "event_loop server_fd epoll_fd (Ready es # rest) w =
     (case process_events server_fd epoll_fd (take MAX_EVENTS es) w of
        Inl f \<Rightarrow> Inl f
      | Inr w' \<Rightarrow> event_loop server_fd epoll_fd rest w')"

section \<open>Startup\<close>

text \<open>
  \<^verbatim>\<open>atoi\<close> as the C library of the Linux target computes it: \<^verbatim>\<open>strtol\<close> in base 10
  (white space, an optional sign, the longest run of digits, saturating at the
  bounds of a 64-bit \<^verbatim>\<open>long\<close>) converted to a 32-bit \<^verbatim>\<open>int\<close>.
\<close>

definition isspace :: "char \<Rightarrow> bool" where
  "isspace c \<longleftrightarrow> c \<in> {SP, HT, LF, CHR 0x0B, CHR 0x0C, CR}"

definition isdigit :: "char \<Rightarrow> bool" where
  "isdigit c \<longleftrightarrow> c \<in> set ''0123456789''"

fun digits_value :: "int \<Rightarrow> string \<Rightarrow> int" where
  "digits_value acc [] = acc"
| "digits_value acc (c # cs) =
     (if isdigit c then digits_value (10 * acc + (of_char c - 48)) cs else acc)"

definition strtol :: "string \<Rightarrow> int" where
  "strtol s =
     (let s1 = dropWhile isspace s;
          neg = (s1 \<noteq> [] \<and> hd s1 = CHR ''-'');
          s2 = (if s1 \<noteq> [] \<and> (hd s1 = CHR ''-'' \<or> hd s1 = CHR ''+'') then tl s1 else s1);
          v = digits_value 0 s2
      in max (- (2 ^ 63)) (min (2 ^ 63 - 1) (if neg then - v else v)))"

definition atoi :: "string \<Rightarrow> int" where
  "atoi s = sint (word_of_int (strtol s) :: 32 word)"

definition LISTENADDR :: string where "LISTENADDR = ''127.0.0.1''"

text \<open>
  The outcomes of the system calls of the startup. \<^verbatim>\<open>bind\<close> is asked about the port
  that \<^verbatim>\<open>htons(portno)\<close> stores: the low 16 bits of the number.
\<close>

record os_setup =
  socket_ok :: bool
  setsockopt_ok :: bool
  inet_pton_ok :: bool
  bind_ok :: "16 word \<Rightarrow> bool"
  listen_ok :: bool
  nonblock :: fcntl_outcome
  epoll_create_ok :: bool
  epoll_add_ok :: bool

definition srv_init :: "os_setup \<Rightarrow> int \<Rightarrow> world \<Rightarrow> int \<times> world" where
  "srv_init os portno w =
     (if \<not> socket_ok os then (- 1, emit (Perror ''socket'') w)
      else
        let s = lowest_free (open_fds w);
            w1 = emit (SysSocket s) (w\<lparr>open_fds := s # open_fds w\<rparr>)
        in if \<not> setsockopt_ok os then (- 1, sys_close s (emit (Perror ''setsockopt'') w1))
           else if \<not> inet_pton_ok os then
             (- 1, sys_close s (emit (Stderr (''inet_pton failed for '' @ LISTENADDR @ [LF])) w1))
           else
             let port = (word_of_int portno :: 16 word);
                 w2 = emit (SysBind s port) w1
             in if \<not> bind_ok os port then (- 1, sys_close s (emit (Perror ''bind'') w2))
                else
                  let w3 = emit (SysListen s) w2
                  in if \<not> listen_ok os then (- 1, sys_close s (emit (Perror ''listen'') w3))
                     else
                       let (r, w4) = set_nonblocking (nonblock os) s w3
                       in if r = - 1 then (- 1, sys_close s w4) else (s, w4))"

text \<open>
  \<^verbatim>\<open>main\<close>. The process starts with the three standard streams open. \<^verbatim>\<open>argv\<close> is
  the list of the arguments, \<^verbatim>\<open>argc\<close> its length.
\<close>

definition main :: "string list \<Rightarrow> os_setup \<Rightarrow> wait_result list \<Rightarrow> fault + run" where
  "main argv os waits =
     (let w0 = \<lparr>registry = {}, open_fds = [0, 1, 2], trace = []\<rparr>
      in if length argv < 2 then
           Inr (Exited 1
             (emit (Stderr (''Usage: '' @ (case argv of [] \<Rightarrow> ''(null)'' | a # _ \<Rightarrow> a)
                            @ '' <port>'' @ [LF])) w0))
         else
           let port = atoi (argv ! 1);
               (server_fd, w1) = srv_init os port w0
           in if server_fd < 0 then
                Inr (Exited 1 (emit (Stderr (''Failed to initialize server'' @ [LF])) w1))
              else
                let w2 = emit (Printf (''Server listening on '' @ LISTENADDR @ '':''
                                       @ show_int port @ [LF])) w1;
                    w3 = emit (Printf (''Using epoll for event-driven I/O (like Node.js and nginx)''
                                       @ [LF])) w2
                in if \<not> epoll_create_ok os then
                     Inr (Exited 1 (sys_close server_fd (emit (Perror ''epoll_create1'') w3)))
                   else
                     let epoll_fd = lowest_free (open_fds w3);
                         w4 = emit (SysEpollCreate epoll_fd)
                                (w3\<lparr>open_fds := epoll_fd # open_fds w3\<rparr>);
                         w5 = epoll_ctl_add (epoll_add_ok os) epoll_fd server_fd w4
                     in if \<not> epoll_add_ok os then
                          Inr (Exited 1 (sys_close epoll_fd (sys_close server_fd
                            (emit (Perror ''epoll_ctl: add server'') w5))))
                        else
                          event_loop server_fd epoll_fd waits
                            (emit (Printf (''Event loop started. Waiting for connections...''
                                           @ [LF])) w5))"

section \<open>Notions used to state the properties\<close>

text \<open>The C string that starts an array: the bytes before the first terminator.\<close>

definition cstr :: "string \<Rightarrow> string" where
  "cstr s = takeWhile (\<lambda>c. c \<noteq> NUL) s"

text \<open>
  The two tokens of a request buffer: the bytes before the first space of the
  string, and the bytes after that space up to the next space, carriage return or
  line feed, or to the end of the string when none follows.
\<close>

definition method_token :: "string \<Rightarrow> string" where
  "method_token s = takeWhile (\<lambda>c. c \<noteq> SP) (cstr s)"

definition target_token :: "string \<Rightarrow> string" where
  "target_token s =
     takeWhile (\<lambda>c. c \<noteq> SP \<and> c \<noteq> CR \<and> c \<noteq> LF)
       (tl (dropWhile (\<lambda>c. c \<noteq> SP) (cstr s)))"

text \<open>The actions a step appended to the trace.\<close>

definition new_actions :: "world \<Rightarrow> world \<Rightarrow> action list" where
  "new_actions w w' = drop (length (trace w)) (trace w')"

text \<open>The \<^verbatim>\<open>read\<close> calls among some actions, as (count, result) pairs.\<close>

fun reads :: "action list \<Rightarrow> (nat \<times> read_result) list" where
  "reads [] = []"
| "reads (SysRead fd n r # as) = (n, r) # reads as"
| "reads (a # as) = reads as"

text \<open>
  A read observed a reason to stop draining, as the specification lists them:
  would-block, end of stream, or a buffer filled to its limit.
\<close>

fun stops_draining :: "nat \<times> read_result \<Rightarrow> bool" where
  "stops_draining (n, Failed e) = (e = EAGAIN)"
| "stops_draining (n, Eof) = True"
| "stops_draining (n, Bytes bs) = (length bs = n)"

text \<open>
  Deregistration before close, read off a sequence of actions: starting from the
  registered handles \<open>R\<close>, no handle is registered at the moment it is closed.
\<close>

fun closes_unregistered :: "int set \<Rightarrow> action list \<Rightarrow> bool" where
  "closes_unregistered R [] = True"
| "closes_unregistered R (EpollCtlAdd ep fd ok # as) =
     closes_unregistered (if ok then insert fd R else R) as"
| "closes_unregistered R (EpollCtlDel ep fd # as) = closes_unregistered (R - {fd}) as"
| "closes_unregistered R (SysClose fd # as) = (fd \<notin> R \<and> closes_unregistered R as)"
| "closes_unregistered R (a # as) = closes_unregistered R as"

text \<open>
  The live connections: the open descriptors that are not among the descriptors
  \<open>base\<close> the process holds for itself (standard streams, listening socket, epoll
  instance).
\<close>

definition connections :: "int set \<Rightarrow> world \<Rightarrow> int set" where
  "connections base w = set (open_fds w) - base"

text \<open>
  Invariant I1 on the kernel state: besides the listening handle, the registered
  handles are exactly the live connections.
\<close>

definition I1 :: "int set \<Rightarrow> int \<Rightarrow> world \<Rightarrow> bool" where
  "I1 base server_fd w \<longleftrightarrow>
     server_fd \<in> base \<and> base \<subseteq> set (open_fds w) \<and>
     registry w = insert server_fd (connections base w)"

text \<open>
  The events the kernel reports to this program: on the listening handle without an
  error or hang-up bit, or on a handle that is not one of the process's own.
\<close>

definition client_or_listener :: "int set \<Rightarrow> int \<Rightarrow> ready_event \<Rightarrow> bool" where
  "client_or_listener base server_fd e \<longleftrightarrow>
     (if data_fd e = server_fd then events e AND (EPOLLERR OR EPOLLHUP) = 0
      else data_fd e \<notin> base)"

fun expected_waits :: "int set \<Rightarrow> int \<Rightarrow> wait_result list \<Rightarrow> bool" where
  "expected_waits base server_fd [] = True"
| "expected_waits base server_fd (WaitFailed # rest) = False"
| "expected_waits base server_fd (Ready es # rest) =
     (list_all (client_or_listener base server_fd) es \<and> expected_waits base server_fd rest)"

text \<open>
  An event on a handle that is not the process's own, with a bit the loop acts on:
  Error, HangUp or Readable.
\<close>

definition client_event :: "int set \<Rightarrow> ready_event \<Rightarrow> bool" where
  "client_event base e \<longleftrightarrow>
     data_fd e \<notin> base \<and>
     (events e AND (EPOLLERR OR EPOLLHUP) \<noteq> 0 \<or> events e AND EPOLLIN \<noteq> 0)"

text \<open>Actions that only write to a descriptor or to a standard stream.\<close>

fun is_output :: "action \<Rightarrow> bool" where
  "is_output (SysWrite fd bs) = True"
| "is_output (Printf l) = True"
| "is_output (Stderr l) = True"
| "is_output (Perror l) = True"
| "is_output a = False"

text \<open>
  The arguments of the five calls of \<^verbatim>\<open>http_send_response\<close> in \<^verbatim>\<open>handle_request\<close>:
  status code, reason phrase, content type and body.
\<close>

definition canned_responses :: "(nat \<times> string \<times> string \<times> string) list" where
  "canned_responses =
     [(400, ''Bad Request'', ''text/plain'', ''Malformed request''),
      (200, ''OK'', ''text/html'', html_body),
      (200, ''OK'', ''application/json'', json_body),
      (404, ''Not Found'', ''text/plain'', ''File not found!''),
      (405, ''Method Not Allowed'', ''text/plain'', ''Only GET supported'')]"

definition response_of :: "nat \<times> string \<times> string \<times> string \<Rightarrow> string" where
  "response_of r = (case r of (code, reason, ctype, body) \<Rightarrow> wire_form code reason ctype body)"

text \<open>The registered handles after a sequence of actions, starting from \<open>R\<close>.\<close>

fun registered_after :: "int set \<Rightarrow> action list \<Rightarrow> int set" where
  "registered_after R [] = R"
| "registered_after R (EpollCtlAdd ep fd ok # as) =
     registered_after (if ok then insert fd R else R) as"
| "registered_after R (EpollCtlDel ep fd # as) = registered_after (R - {fd}) as"
| "registered_after R (a # as) = registered_after R as"

text \<open>Actions that neither change the registry nor close a descriptor.\<close>

fun neutral :: "action \<Rightarrow> bool" where
  "neutral (EpollCtlAdd ep fd ok) = False"
| "neutral (EpollCtlDel ep fd) = False"
| "neutral (SysClose fd) = False"
| "neutral a = True"

text \<open>
  A later state of the same run: the trace has grown by actions that close no
  registered handle, and the registry is the one these actions leave.
\<close>

definition tracked :: "world \<Rightarrow> world \<Rightarrow> bool" where
  "tracked w w' \<longleftrightarrow>
     (\<exists>acts. trace w' = trace w @ acts \<and> closes_unregistered (registry w) acts \<and>
             registered_after (registry w) acts = registry w')"

section \<open>The parser on C strings\<close>

lemma scan_stop: "(\<forall>c\<in>set a. P c) \<Longrightarrow> \<not> P t \<Longrightarrow> scan P (a @ t # r) = Some (length a)"
  by (induction a) auto

lemma scan_SomeD:
  "scan P s = Some k \<Longrightarrow> k < length s \<and> \<not> P (s ! k) \<and> (\<forall>c\<in>set (take k s). P c)"
proof (induction s arbitrary: k)
  case Nil
  then show ?case by simp
next
  case (Cons c cs)
  show ?case
  proof (cases "P c")
    case True
    with Cons.prems obtain j where j: "scan P cs = Some j" "k = Suc j"
      by auto
    from Cons.IH [OF j(1)] True j(2) show ?thesis by auto
  next
    case False
    with Cons.prems show ?thesis by auto
  qed
qed

lemma strncpy_stop: "NUL \<notin> set a \<Longrightarrow> strncpy (a @ NUL # r) n = take n a"
proof -
  assume "NUL \<notin> set a"
  then have "takeWhile (\<lambda>c. c \<noteq> NUL) (a @ NUL # r) = a"
    by (induction a) auto
  then show ?thesis by (simp add: strncpy_def)
qed

lemma parse_http_tokens:
  assumes m: "\<forall>c\<in>set m. c \<noteq> NUL \<and> c \<noteq> SP"
    and u: "\<forall>c\<in>set u. c \<noteq> NUL \<and> c \<noteq> SP \<and> c \<noteq> CR \<and> c \<noteq> LF"
    and t: "t = NUL \<or> t = SP \<or> t = CR \<or> t = LF"
  shows "parse_http True (m @ SP # u @ t # r) =
           Inr (Some \<lparr>method = take 15 m, url = take 1023 u\<rparr>, m @ NUL # u @ NUL # r)"
proof -
  have p: "scan (\<lambda>c. c \<noteq> NUL \<and> c \<noteq> SP) (m @ SP # u @ t # r) = Some (length m)"
    using m by (intro scan_stop) auto
  have s1: "(m @ SP # u @ t # r)[length m := NUL] = m @ NUL # u @ t # r"
    by (simp add: list_update_append)
  have k: "scan (\<lambda>c. c \<noteq> NUL \<and> c \<noteq> SP \<and> c \<noteq> CR \<and> c \<noteq> LF) (u @ t # r) = Some (length u)"
    using u t by (intro scan_stop) auto
  have s2: "(m @ NUL # u @ t # r)[Suc (length m + length u) := NUL] = m @ NUL # u @ NUL # r"
    by (simp add: list_update_append)
  have nm: "NUL \<notin> set m" and nu: "NUL \<notin> set u"
    using m u by auto
  show ?thesis
    by (simp add: parse_http_def p s1 k s2 Let_def strncpy_stop [OF nm] strncpy_stop [OF nu])
qed

lemma parse_http_no_space:
  assumes m: "\<forall>c\<in>set m. c \<noteq> NUL \<and> c \<noteq> SP"
  shows "parse_http True (m @ NUL # r) = Inr (None, m @ NUL # r)"
proof -
  have p: "scan (\<lambda>c. c \<noteq> NUL \<and> c \<noteq> SP) (m @ NUL # r) = Some (length m)"
    using m by (intro scan_stop) auto
  have "NUL \<noteq> SP" by (simp add: NUL_def SP_def)
  then show ?thesis
    by (simp add: parse_http_def p)
qed

lemma parse_http_no_memory: "parse_http False s = Inr (None, s)"
  by (simp add: parse_http_def)

lemma cstr_split: "NUL \<in> set s \<Longrightarrow> \<exists>r. s = cstr s @ NUL # r"
proof -
  assume "NUL \<in> set s"
  then have "dropWhile (\<lambda>c. c \<noteq> NUL) s \<noteq> []"
    by simp
  then obtain t r where d: "dropWhile (\<lambda>c. c \<noteq> NUL) s = t # r"
    by (cases "dropWhile (\<lambda>c. c \<noteq> NUL) s") auto
  then have "t = NUL"
    using hd_dropWhile [of "\<lambda>c. c \<noteq> NUL" s] by auto
  with d have "s = cstr s @ NUL # r"
    using takeWhile_dropWhile_id [of "\<lambda>c. c \<noteq> NUL" s] by (simp add: cstr_def)
  then show ?thesis ..
qed

lemma cstr_no_NUL: "NUL \<notin> set (cstr s)"
  using set_takeWhileD [of NUL "\<lambda>c. c \<noteq> NUL" s] by (auto simp: cstr_def)

lemma parse_http_fails_without_space:
  assumes "NUL \<in> set s" and "SP \<notin> set (cstr s)"
  shows "parse_http True s = Inr (None, s)"
proof -
  from assms(1) obtain r where s: "s = cstr s @ NUL # r"
    using cstr_split by blast
  have "\<forall>c\<in>set (cstr s). c \<noteq> NUL \<and> c \<noteq> SP"
    using cstr_no_NUL [of s] assms(2) by auto
  from parse_http_no_space [OF this, of r] s show ?thesis by simp
qed

lemma parse_http_succeeds_with_space:
  assumes "NUL \<in> set s" and "SP \<in> set (cstr s)"
  shows "\<exists>b. parse_http True s =
           Inr (Some \<lparr>method = take 15 (method_token s), url = take 1023 (target_token s)\<rparr>, b)"
proof -
  from assms(1) obtain r where s: "s = cstr s @ NUL # r"
    using cstr_split by blast
  define m where "m = method_token s"
  define a where "a = tl (dropWhile (\<lambda>c. c \<noteq> SP) (cstr s))"
  define u where "u = target_token s"
  define v where "v = dropWhile (\<lambda>c. c \<noteq> SP \<and> c \<noteq> CR \<and> c \<noteq> LF) a"
  have "dropWhile (\<lambda>c. c \<noteq> SP) (cstr s) \<noteq> []"
    using assms(2) by simp
  moreover have "hd (dropWhile (\<lambda>c. c \<noteq> SP) (cstr s)) = SP"
    using hd_dropWhile [of "\<lambda>c. c \<noteq> SP" "cstr s"] calculation by auto
  ultimately have d: "dropWhile (\<lambda>c. c \<noteq> SP) (cstr s) = SP # a"
    by (cases "dropWhile (\<lambda>c. c \<noteq> SP) (cstr s)") (auto simp: a_def)
  have c: "cstr s = m @ SP # a"
    using takeWhile_dropWhile_id [of "\<lambda>c. c \<noteq> SP" "cstr s"] d
    by (simp add: m_def method_token_def)
  have a: "a = u @ v"
    by (simp add: u_def v_def target_token_def a_def)
  have nn: "NUL \<notin> set m" "NUL \<notin> set a"
    using cstr_no_NUL [of s] c by auto
  have mP: "\<forall>c\<in>set m. c \<noteq> NUL \<and> c \<noteq> SP"
    using nn(1) set_takeWhileD [of _ "\<lambda>c. c \<noteq> SP" "cstr s"] by (auto simp: m_def method_token_def)
  have uP: "\<forall>c\<in>set u. c \<noteq> NUL \<and> c \<noteq> SP \<and> c \<noteq> CR \<and> c \<noteq> LF"
  proof
    fix c assume cu: "c \<in> set u"
    then have "c \<in> set a" using a by simp
    then have "c \<noteq> NUL" using nn(2) by auto
    moreover have "c \<noteq> SP \<and> c \<noteq> CR \<and> c \<noteq> LF"
      using cu set_takeWhileD [of c "\<lambda>c. c \<noteq> SP \<and> c \<noteq> CR \<and> c \<noteq> LF" a]
      by (simp add: u_def target_token_def a_def)
    ultimately show "c \<noteq> NUL \<and> c \<noteq> SP \<and> c \<noteq> CR \<and> c \<noteq> LF" by simp
  qed
  have "\<exists>t r'. v @ NUL # r = t # r' \<and> (t = NUL \<or> t = SP \<or> t = CR \<or> t = LF)"
  proof (cases v)
    case Nil
    then show ?thesis by simp
  next
    case (Cons x xs)
    then have "\<not> (x \<noteq> SP \<and> x \<noteq> CR \<and> x \<noteq> LF)"
      using hd_dropWhile [of "\<lambda>c. c \<noteq> SP \<and> c \<noteq> CR \<and> c \<noteq> LF" a] by (simp add: v_def)
    then have "x = SP \<or> x = CR \<or> x = LF" by blast
    then show ?thesis by (simp add: Cons)
  qed
  then obtain t r' where tr: "v @ NUL # r = t # r'" and t: "t = NUL \<or> t = SP \<or> t = CR \<or> t = LF"
    by blast
  have "s = m @ SP # u @ t # r'"
    using s c a tr by simp
  then have "parse_http True s =
      Inr (Some \<lparr>method = take 15 m, url = take 1023 u\<rparr>, m @ NUL # u @ NUL # r')"
    using parse_http_tokens [OF mP uP t, of r'] by simp
  then show ?thesis
    unfolding m_def u_def by blast
qed

lemma parse_http_returns: "NUL \<in> set s \<Longrightarrow> \<exists>res b. parse_http a s = Inr (res, b)"
  using parse_http_fails_without_space [of s] parse_http_succeeds_with_space [of s]
    parse_http_no_memory [of s]
  by (cases a; cases "SP \<in> set (cstr s)") auto


lemma parse_http_frame:
  assumes "parse_http a s = Inr (res, b)"
  shows "(res = None \<longrightarrow> b = s) \<and>
         (res \<noteq> None \<longrightarrow>
            (\<exists>p q. p < q \<and> q < length s \<and> s ! p = SP \<and>
                   (s ! q = NUL \<or> s ! q = SP \<or> s ! q = CR \<or> s ! q = LF) \<and>
                   b = s[p := NUL, q := NUL]))"
proof (cases a)
  case False
  with assms show ?thesis by (simp add: parse_http_def)
next
  case True
  show ?thesis
  proof (cases "scan (\<lambda>c. c \<noteq> NUL \<and> c \<noteq> SP) s")
    case None
    with assms True show ?thesis by (simp add: parse_http_def)
  next
    case (Some p)
    note p = scan_SomeD [OF Some]
    show ?thesis
    proof (cases "s ! p = SP")
      case False
      with assms True Some show ?thesis by (simp add: parse_http_def)
    next
      case sp: True
      show ?thesis
      proof (cases "scan (\<lambda>c. c \<noteq> NUL \<and> c \<noteq> SP \<and> c \<noteq> CR \<and> c \<noteq> LF) (drop (Suc p) (s[p := NUL]))")
        case None
        with assms True Some sp show ?thesis by (simp add: parse_http_def)
      next
        case k: (Some k)
        have d: "drop (Suc p) (s[p := NUL]) = drop (Suc p) s"
          by simp
        note kk = scan_SomeD [OF k [unfolded d]]
        from kk have "k < length s - Suc p" by simp
        then have q: "Suc p + k < length s" by linarith
        have sq: "s ! (Suc p + k) = drop (Suc p) s ! k"
          using q by simp
        have "s ! (Suc p + k) = NUL \<or> s ! (Suc p + k) = SP \<or> s ! (Suc p + k) = CR \<or> s ! (Suc p + k) = LF"
          unfolding sq using kk by blast
        moreover have "b = s[p := NUL, Suc p + k := NUL]" "res \<noteq> None"
          using assms True Some sp k by (auto simp add: parse_http_def Let_def)
        ultimately show ?thesis
          using q sp by (intro conjI impI exI [of _ p] exI [of _ "Suc p + k"]) auto
      qed
    qed
  qed
qed

lemma tokens_of_split:
  assumes m: "\<forall>c\<in>set m. c \<noteq> NUL \<and> c \<noteq> SP"
    and u: "\<forall>c\<in>set u. c \<noteq> NUL \<and> c \<noteq> SP \<and> c \<noteq> CR \<and> c \<noteq> LF"
    and t: "t = NUL \<or> t = SP \<or> t = CR \<or> t = LF"
  shows "method_token (m @ SP # u @ t # r) = m"
    and "target_token (m @ SP # u @ t # r) = u"
proof -
  have sp: "SP \<noteq> NUL" by (simp add: SP_def NUL_def)
  define x where "x = (if t = NUL then [] else t # cstr r)"
  have c1: "cstr (u @ t # r) = u @ x"
    using u by (simp add: cstr_def x_def takeWhile_append2)
  have c: "cstr (m @ SP # u @ t # r) = m @ SP # u @ x"
    using m sp c1 by (simp add: cstr_def takeWhile_append2)
  show "method_token (m @ SP # u @ t # r) = m"
    unfolding method_token_def c using m by (simp add: takeWhile_append2)
  have d: "dropWhile (\<lambda>c. c \<noteq> SP) (m @ SP # u @ x) = SP # u @ x"
    using m by (simp add: dropWhile_append2)
  have "takeWhile (\<lambda>c. c \<noteq> SP \<and> c \<noteq> CR \<and> c \<noteq> LF) (u @ x) = u"
    using u t by (auto simp: takeWhile_append2 x_def)
  then show "target_token (m @ SP # u @ t # r) = u"
    unfolding target_token_def c d by simp
qed

lemma parse_http_split:
  assumes "parse_http a s = Inr (Some req, b)"
  shows "\<exists>m u t r. s = m @ SP # u @ t # r \<and>
           (\<forall>c\<in>set m. c \<noteq> NUL \<and> c \<noteq> SP) \<and>
           (\<forall>c\<in>set u. c \<noteq> NUL \<and> c \<noteq> SP \<and> c \<noteq> CR \<and> c \<noteq> LF) \<and>
           (t = NUL \<or> t = SP \<or> t = CR \<or> t = LF)"
proof -
  from assms have a: a
    by (auto simp: parse_http_def split: if_splits)
  from assms a obtain p where p: "scan (\<lambda>c. c \<noteq> NUL \<and> c \<noteq> SP) s = Some p"
    by (auto simp: parse_http_def split: option.splits)
  note pd = scan_SomeD [OF p]
  from assms a p have sp: "s ! p = SP"
    by (auto simp: parse_http_def split: if_splits)
  have d: "drop (Suc p) (s[p := NUL]) = drop (Suc p) s"
    by simp
  from assms a p sp obtain k where
    k: "scan (\<lambda>c. c \<noteq> NUL \<and> c \<noteq> SP \<and> c \<noteq> CR \<and> c \<noteq> LF) (drop (Suc p) s) = Some k"
    by (auto simp: parse_http_def Let_def d split: option.splits)
  note kd = scan_SomeD [OF k]
  let ?d = "drop (Suc p) s"
  have s1: "s = take p s @ SP # ?d"
    using pd sp id_take_nth_drop [of p s] by simp
  have s2: "?d = take k ?d @ ?d ! k # drop (Suc k) ?d"
    using kd id_take_nth_drop [of k ?d] by blast
  have "s = take p s @ SP # take k ?d @ ?d ! k # drop (Suc k) ?d"
    using s1 s2 by simp
  moreover have "?d ! k = NUL \<or> ?d ! k = SP \<or> ?d ! k = CR \<or> ?d ! k = LF"
    using kd by blast
  ultimately show ?thesis
    using pd kd by blast
qed

lemma parse_http_in_place:
  assumes "parse_http a s = Inr (Some req, b)"
  shows "Suc (length (method_token s)) + length (target_token s) < length s"
    and "s ! length (method_token s) = SP"
    and "s ! (Suc (length (method_token s)) + length (target_token s)) = NUL \<or>
         s ! (Suc (length (method_token s)) + length (target_token s)) = SP \<or>
         s ! (Suc (length (method_token s)) + length (target_token s)) = CR \<or>
         s ! (Suc (length (method_token s)) + length (target_token s)) = LF"
    and "b = s[length (method_token s) := NUL,
               Suc (length (method_token s)) + length (target_token s) := NUL]"
    and "req = \<lparr>method = take 15 (method_token s), url = take 1023 (target_token s)\<rparr>"
proof -
  from parse_http_split [OF assms] obtain m u t r where
    s: "s = m @ SP # u @ t # r"
    and m: "\<forall>c\<in>set m. c \<noteq> NUL \<and> c \<noteq> SP"
    and u: "\<forall>c\<in>set u. c \<noteq> NUL \<and> c \<noteq> SP \<and> c \<noteq> CR \<and> c \<noteq> LF"
    and t: "t = NUL \<or> t = SP \<or> t = CR \<or> t = LF"
    by blast
  have mt: "method_token s = m" and tt: "target_token s = u"
    unfolding s by (rule tokens_of_split [OF m u t])+
  from assms have a: a
    by (auto simp: parse_http_def split: if_splits)
  from parse_http_tokens [OF m u t, of r] assms a
  have r: "req = \<lparr>method = take 15 m, url = take 1023 u\<rparr>" "b = m @ NUL # u @ NUL # r"
    unfolding s by simp_all
  show "Suc (length (method_token s)) + length (target_token s) < length s"
    unfolding mt tt by (simp add: s)
  show "s ! length (method_token s) = SP"
    unfolding mt by (simp add: s)
  have q: "s ! (Suc (length m) + length u) = t"
    by (simp add: s nth_append)
  show "s ! (Suc (length (method_token s)) + length (target_token s)) = NUL \<or>
         s ! (Suc (length (method_token s)) + length (target_token s)) = SP \<or>
         s ! (Suc (length (method_token s)) + length (target_token s)) = CR \<or>
         s ! (Suc (length (method_token s)) + length (target_token s)) = LF"
    unfolding mt tt q by (rule t)
  show "b = s[length (method_token s) := NUL,
               Suc (length (method_token s)) + length (target_token s) := NUL]"
    unfolding mt tt r by (simp add: s list_update_append)
  show "req = \<lparr>method = take 15 (method_token s), url = take 1023 (target_token s)\<rparr>"
    unfolding mt tt by (rule r)
qed

section \<open>The serialised responses\<close>


lemma length_dec_le: "n < 10000 \<Longrightarrow> length (dec n) \<le> 4"
  by (simp add: dec.simps [of n] dec.simps [of "n div 10"] dec.simps [of "n div 10 div 10"]
      dec.simps [of "n div 10 div 10 div 10"])

lemma http_send_response_wire:
  assumes "length reason + length ctype + length body \<le> 4000" and "code < 10000"
  shows "http_send_response fd (int code) reason (Some ctype) (Some body) =
           Inr [SysWrite fd (wire_form code reason ctype body)]"
proof -
  have b: "sint (word_of_nat (length body) :: 32 word) = int (length body)"
  proof -
    have "sint (word_of_int (int (length body)) :: 32 word) = int (length body)"
      unfolding sint_sbintrunc' using assms(1)
      by (intro signed_take_bit_int_eq_self) auto
    then show ?thesis by simp
  qed
  have l: "length (wire_form code reason ctype body) < BUFFER_SIZE"
    using assms length_dec_le [of code] length_dec_le [of "length body"]
    by (simp add: wire_form_def BUFFER_SIZE_def CRLF_def)
  have t: "''HTTP/1.1 '' @ show_int (int code) @ '' '' @ reason @ CRLF
               @ ''Content-Type: '' @ ctype @ CRLF
               @ ''Content-Length: '' @ show_int (int (length body)) @ CRLF
               @ ''Connection: close'' @ CRLF
               @ CRLF
               @ body = wire_form code reason ctype body"
    by (simp add: wire_form_def show_int_def)
  show ?thesis
    unfolding http_send_response_def Let_def option.case b t
    using l by (simp add: BUFFER_SIZE_def)
qed



lemma send_200_html:
  "http_send_response fd 200 ''OK'' (Some ''text/html'') (Some html_body) =
     Inr [SysWrite fd (wire_form 200 ''OK'' ''text/html'' html_body)]"
  using http_send_response_wire [of "''OK''" "''text/html''" html_body 200 fd]
  by (simp add: html_body_def)

lemma send_200_json:
  "http_send_response fd 200 ''OK'' (Some ''application/json'') (Some json_body) =
     Inr [SysWrite fd (wire_form 200 ''OK'' ''application/json'' json_body)]"
  using http_send_response_wire [of "''OK''" "''application/json''" json_body 200 fd]
  by (simp add: json_body_def)

lemma send_404:
  "http_send_response fd 404 ''Not Found'' (Some ''text/plain'') (Some ''File not found!'') =
     Inr [SysWrite fd (wire_form 404 ''Not Found'' ''text/plain'' ''File not found!'')]"
  using http_send_response_wire [of "''Not Found''" "''text/plain''" "''File not found!''" 404 fd]
  by simp

lemma send_405:
  "http_send_response fd 405 ''Method Not Allowed'' (Some ''text/plain'')
       (Some ''Only GET supported'') =
     Inr [SysWrite fd (wire_form 405 ''Method Not Allowed'' ''text/plain'' ''Only GET supported'')]"
  using http_send_response_wire
    [of "''Method Not Allowed''" "''text/plain''" "''Only GET supported''" 405 fd]
  by simp

lemma send_400:
  "http_send_response fd 400 ''Bad Request'' (Some ''text/plain'') (Some ''Malformed request'') =
     Inr [SysWrite fd (wire_form 400 ''Bad Request'' ''text/plain'' ''Malformed request'')]"
  using http_send_response_wire
    [of "''Bad Request''" "''text/plain''" "''Malformed request''" 400 fd]
  by simp

lemmas send_canned = send_200_html send_200_json send_404 send_405 send_400

lemma handle_request_failed:
  "parse_http a request = Inr (None, b) \<Longrightarrow>
   handle_request a fd request =
     Inr [SysWrite fd (wire_form 400 ''Bad Request'' ''text/plain'' ''Malformed request'')]"
  by (simp add: handle_request_def send_400)

lemma handle_request_parsed:
  "parse_http a request = Inr (Some req, b) \<Longrightarrow>
   handle_request a fd request =
     Inr [Printf (request_log req),
          SysWrite fd
            (if method req = ''GET'' then
               if url req = ''/index.html'' \<or> url req = ''/'' then
                 wire_form 200 ''OK'' ''text/html'' html_body
               else if url req = ''/data.json'' then
                 wire_form 200 ''OK'' ''application/json'' json_body
               else wire_form 404 ''Not Found'' ''text/plain'' ''File not found!''
             else wire_form 405 ''Method Not Allowed'' ''text/plain'' ''Only GET supported'')]"
  by (simp add: handle_request_def send_canned)

lemma get_root_request:
  "handle_request True fd (''GET / HTTP/1.1'' @ [CR, LF, CR, LF, NUL]) =
     Inr [Printf (request_log \<lparr>method = ''GET'', url = ''/''\<rparr>),
          SysWrite fd (wire_form 200 ''OK'' ''text/html'' html_body)]"
proof -
  have "parse_http True (''GET / HTTP/1.1'' @ [CR, LF, CR, LF, NUL]) =
     Inr (Some \<lparr>method = ''GET'', url = ''/''\<rparr>,
          ''GET'' @ [NUL] @ ''/'' @ [NUL] @ ''HTTP/1.1'' @ [CR, LF, CR, LF, NUL])"
    by (simp add: parse_http_def NUL_def SP_def CR_def LF_def strncpy_def)
  from handle_request_parsed [OF this, of fd] show ?thesis by simp
qed

lemma wire_200_html:
  "wire_form 200 ''OK'' ''text/html'' html_body =
     ''HTTP/1.1 200 OK'' @ [CR, LF] @ ''Content-Type: text/html'' @ [CR, LF]
     @ ''Content-Length: 35'' @ [CR, LF] @ ''Connection: close'' @ [CR, LF, CR, LF]
     @ ''<html><h4>Hello World!!</h4></html>''"
  by (simp add: wire_form_def html_body_def dec.simps CRLF_def)

section \<open>The connection driver\<close>

lemma handle_request_returns:
  assumes "NUL \<in> set s"
  shows "\<exists>acts. handle_request a fd s = Inr acts \<and> list_all is_output acts \<and>
           (\<exists>r\<in>set canned_responses.
              writes acts = [response_of r])"
proof -
  from parse_http_returns [OF assms, of a] obtain res b where p: "parse_http a s = Inr (res, b)"
    by blast
  show ?thesis
  proof (cases res)
    case None
    with p handle_request_failed [of a s b fd] show ?thesis
      by (simp add: canned_responses_def response_of_def)
  next
    case (Some req)
    with p handle_request_parsed [of a s req b fd] show ?thesis
      by (simp add: canned_responses_def response_of_def)
  qed
qed

lemma handle_client_data_bytes:
  assumes "sys_read s (BUFFER_SIZE - 1) = Bytes bs"
    and "handle_request a fd (bs @ [NUL]) = Inr acts"
  shows "handle_client_data a s fd ep w =
           Inr (sys_close fd (epoll_ctl_del ep fd
             (w\<lparr>trace := trace w @ SysRead fd (BUFFER_SIZE - 1) (Bytes bs) # acts\<rparr>)))"
  using assms by (simp add: handle_client_data_def Let_def emit_def)

lemma teardown_state:
  "registry (sys_close fd (epoll_ctl_del ep fd w)) = registry w - {fd}"
  "open_fds (sys_close fd (epoll_ctl_del ep fd w)) = removeAll fd (open_fds w)"
  "trace (sys_close fd (epoll_ctl_del ep fd w)) = trace w @ [EpollCtlDel ep fd, SysClose fd]"
  by (simp_all add: sys_close_def epoll_ctl_del_def emit_def)

lemma handle_client_data_shape:
  "\<exists>acts. list_all is_output acts \<and>
     (writes acts = [] \<or>
      (\<exists>r\<in>set canned_responses.
         writes acts = [response_of r])) \<and>
     handle_client_data a s fd ep w =
       Inr (sys_close fd (epoll_ctl_del ep fd
         (w\<lparr>trace := trace w
              @ SysRead fd (BUFFER_SIZE - 1) (sys_read s (BUFFER_SIZE - 1)) # acts\<rparr>)))"
proof (cases "sys_read s (BUFFER_SIZE - 1)")
  case (Bytes bs)
  have "NUL \<in> set (bs @ [NUL])" by simp
  from handle_request_returns [OF this, of a fd] obtain acts where
    a: "handle_request a fd (bs @ [NUL]) = Inr acts" "list_all is_output acts"
      "\<exists>r\<in>set canned_responses.
              writes acts = [response_of r]"
    by blast
  from handle_client_data_bytes [OF Bytes a(1), of ep w] a(2,3) Bytes show ?thesis
    by auto
next
  case Eof
  then show ?thesis
    by (intro exI [of _ "[Printf (''Connection closed: fd='' @ show_int fd @ [LF])]"])
       (simp add: handle_client_data_def Let_def emit_def)
next
  case (Failed e)
  then show ?thesis
    by (intro exI [of _ "if e \<noteq> EAGAIN then [Perror ''read''] else []"])
       (simp add: handle_client_data_def Let_def emit_def)
qed

lemma new_actions_append: "trace w' = trace w @ acts \<Longrightarrow> new_actions w w' = acts"
  by (simp add: new_actions_def)

lemma writes_append: "writes (xs @ ys) = writes xs @ writes ys"
  by (induction xs rule: writes.induct) auto

lemma reads_outputs: "list_all is_output acts \<Longrightarrow> reads acts = []"
  by (induction acts rule: reads.induct) auto

lemma reads_append: "reads (xs @ ys) = reads xs @ reads ys"
  by (induction xs rule: reads.induct) auto

lemma drive_get_root_after:
  "handle_client_data True (Sock (''GET / HTTP/1.1'' @ [CR, LF, CR, LF]) PeerOpen) 5 4
     \<lparr>registry = {3, 5}, open_fds = [5, 4, 3, 0, 1, 2], trace = t\<rparr> =
   Inr \<lparr>registry = {3}, open_fds = [4, 3, 0, 1, 2],
        trace = t @ [SysRead 5 4095 (Bytes (''GET / HTTP/1.1'' @ [CR, LF, CR, LF])),
                 Printf (request_log \<lparr>method = ''GET'', url = ''/''\<rparr>),
                 SysWrite 5 (wire_form 200 ''OK'' ''text/html'' html_body),
                 EpollCtlDel 4 5, SysClose 5]\<rparr>"
proof -
  have r: "sys_read (Sock (''GET / HTTP/1.1'' @ [CR, LF, CR, LF]) PeerOpen) (BUFFER_SIZE - 1) =
             Bytes (''GET / HTTP/1.1'' @ [CR, LF, CR, LF])"
    by (simp add: BUFFER_SIZE_def)
  have h: "handle_request True 5 ((''GET / HTTP/1.1'' @ [CR, LF, CR, LF]) @ [NUL]) =
             Inr [Printf (request_log \<lparr>method = ''GET'', url = ''/''\<rparr>),
                  SysWrite 5 (wire_form 200 ''OK'' ''text/html'' html_body)]"
    using get_root_request [of 5] by simp
  show ?thesis
    unfolding handle_client_data_bytes [OF r h]
    by (simp add: BUFFER_SIZE_def emit_def sys_close_def epoll_ctl_del_def insert_Diff_if)
qed

lemma drive_get_root:
  "handle_client_data True (Sock (''GET / HTTP/1.1'' @ [CR, LF, CR, LF]) PeerOpen) 5 4
     \<lparr>registry = {3, 5}, open_fds = [5, 4, 3, 0, 1, 2], trace = []\<rparr> =
   Inr \<lparr>registry = {3}, open_fds = [4, 3, 0, 1, 2],
        trace = [SysRead 5 4095 (Bytes (''GET / HTTP/1.1'' @ [CR, LF, CR, LF])),
                 Printf (request_log \<lparr>method = ''GET'', url = ''/''\<rparr>),
                 SysWrite 5 (wire_form 200 ''OK'' ''text/html'' html_body),
                 EpollCtlDel 4 5, SysClose 5]\<rparr>"
  using drive_get_root_after [of "[]"] by simp

lemma handle_filled_buffer:
  "parse_http True ((''GET / '' @ replicate 4089 (CHR ''A'')) @ [NUL]) =
     Inr (Some \<lparr>method = ''GET'', url = ''/''\<rparr>,
          ''GET'' @ NUL # ''/'' @ NUL # replicate 4089 (CHR ''A'') @ [NUL])"
  "handle_request True 5 ((''GET / '' @ replicate 4089 (CHR ''A'')) @ [NUL]) =
     Inr [Printf (request_log \<lparr>method = ''GET'', url = ''/''\<rparr>),
          SysWrite 5 (wire_form 200 ''OK'' ''text/html'' html_body)]"
proof -
  have "parse_http True (''GET'' @ SP # ''/'' @ SP # replicate 4089 (CHR ''A'') @ [NUL]) =
          Inr (Some \<lparr>method = take 15 ''GET'', url = take 1023 ''/''\<rparr>,
               ''GET'' @ NUL # ''/'' @ NUL # replicate 4089 (CHR ''A'') @ [NUL])"
    by (rule parse_http_tokens) (simp_all add: NUL_def SP_def CR_def LF_def)
  then show p: "parse_http True ((''GET / '' @ replicate 4089 (CHR ''A'')) @ [NUL]) =
          Inr (Some \<lparr>method = ''GET'', url = ''/''\<rparr>,
               ''GET'' @ NUL # ''/'' @ NUL # replicate 4089 (CHR ''A'') @ [NUL])"
    by (simp add: SP_def)
  from handle_request_parsed [OF p, of 5]
  show "handle_request True 5 ((''GET / '' @ replicate 4089 (CHR ''A'')) @ [NUL]) =
             Inr [Printf (request_log \<lparr>method = ''GET'', url = ''/''\<rparr>),
                  SysWrite 5 (wire_form 200 ''OK'' ''text/html'' html_body)]"
    by simp
qed

lemma read_filled_buffer:
  "sys_read (Sock (''GET / '' @ replicate 5000 (CHR ''A'')) PeerOpen) (BUFFER_SIZE - 1) =
     Bytes (''GET / '' @ replicate 4089 (CHR ''A''))"
  "take (BUFFER_SIZE - 1) (''GET / '' @ replicate 5000 (CHR ''A'')) =
     ''GET / '' @ replicate 4089 (CHR ''A'')"
  by (simp_all add: BUFFER_SIZE_def)

section \<open>Traces, the registry and the accept loop\<close>

lemma closes_unregistered_append:
  "closes_unregistered R (xs @ ys) \<longleftrightarrow>
     closes_unregistered R xs \<and> closes_unregistered (registered_after R xs) ys"
  by (induction R xs rule: closes_unregistered.induct) auto

lemma registered_after_append:
  "registered_after R (xs @ ys) = registered_after (registered_after R xs) ys"
  by (induction R xs rule: registered_after.induct) auto

lemma neutral_step:
  "neutral a \<Longrightarrow> closes_unregistered R (a # as) = closes_unregistered R as \<and>
     registered_after R (a # as) = registered_after R as"
  by (cases a) simp_all

lemma neutral_actions:
  "list_all neutral acts \<Longrightarrow> closes_unregistered R acts \<and> registered_after R acts = R"
  by (induction acts) (simp_all add: neutral_step)

lemma is_output_neutral: "is_output a \<Longrightarrow> neutral a"
  by (cases a) auto

lemma outputs_neutral: "list_all is_output acts \<Longrightarrow> list_all neutral acts"
  by (induction acts) (auto simp: is_output_neutral)

lemma tracked_refl: "tracked w w"
  by (simp add: tracked_def)

lemma tracked_trans:
  assumes "tracked a b" and "tracked b c"
  shows "tracked a c"
proof -
  from assms(1) obtain xs where
    xs: "trace b = trace a @ xs" "closes_unregistered (registry a) xs"
      "registered_after (registry a) xs = registry b"
    unfolding tracked_def by blast
  from assms(2) obtain ys where
    ys: "trace c = trace b @ ys" "closes_unregistered (registry b) ys"
      "registered_after (registry b) ys = registry c"
    unfolding tracked_def by blast
  have "trace c = trace a @ (xs @ ys)"
    using xs(1) ys(1) by simp
  moreover have "closes_unregistered (registry a) (xs @ ys)"
    using xs(2,3) ys(2) by (simp add: closes_unregistered_append)
  moreover have "registered_after (registry a) (xs @ ys) = registry c"
    using xs(3) ys(3) by (simp add: registered_after_append)
  ultimately show ?thesis
    unfolding tracked_def by blast
qed

lemma tracked_emit: "neutral a \<Longrightarrow> tracked w (emit a w)"
  unfolding tracked_def emit_def
  by (intro exI [of _ "[a]"]) (simp add: neutral_step)

lemma tracked_log: "list_all neutral acts \<Longrightarrow> tracked w (w\<lparr>trace := trace w @ acts\<rparr>)"
  unfolding tracked_def using neutral_actions [of acts "registry w"]
  by (intro exI [of _ acts]) simp

lemma tracked_open: "tracked w (w\<lparr>open_fds := fds\<rparr>)"
  by (simp add: tracked_def)

lemma tracked_del: "tracked w (epoll_ctl_del ep fd w)"
  unfolding tracked_def epoll_ctl_del_def emit_def
  by (intro exI [of _ "[EpollCtlDel ep fd]"]) simp

lemma tracked_add: "tracked w (epoll_ctl_add ok ep fd w)"
  unfolding tracked_def epoll_ctl_add_def emit_def
  by (intro exI [of _ "[EpollCtlAdd ep fd ok]"]) simp

lemma tracked_close: "fd \<notin> registry w \<Longrightarrow> tracked w (sys_close fd w)"
  unfolding tracked_def sys_close_def emit_def
  by (intro exI [of _ "[SysClose fd]"]) simp

lemma tracked_teardown: "tracked w (sys_close fd (epoll_ctl_del ep fd w))"
proof -
  have "fd \<notin> registry (epoll_ctl_del ep fd w)"
    by (simp add: epoll_ctl_del_def emit_def)
  from tracked_trans [OF tracked_del tracked_close [OF this]] show ?thesis .
qed

lemma tracked_new_actions:
  "tracked w w' \<Longrightarrow> closes_unregistered (registry w) (new_actions w w')"
  by (auto simp: tracked_def new_actions_def)

lemma lowest_free_fresh: "lowest_free fds \<notin> set fds"
proof (cases "find (\<lambda>n. n \<notin> set fds) (map int [0 ..< Suc (length fds)])")
  case (Some n)
  then have "n \<notin> set fds"
    unfolding find_Some_iff by blast
  with Some show ?thesis
    by (simp add: lowest_free_def)
next
  case None
  then have "\<forall>x \<in> set (map int [0 ..< Suc (length fds)]). x \<in> set fds"
    unfolding find_None_iff by blast
  then have "int ` {0 ..< Suc (length fds)} \<subseteq> set fds"
    unfolding set_map set_upt by blast
  then have "card (int ` {0 ..< Suc (length fds)}) \<le> card (set fds)"
    by (intro card_mono) auto
  moreover have "card (int ` {0 ..< Suc (length fds)}) = Suc (length fds)"
    by (simp add: card_image)
  moreover have "card (set fds) \<le> length fds"
    by (rule card_length)
  ultimately show ?thesis by simp
qed

lemma I1_teardown:
  assumes "I1 base srv w" and "fd \<notin> base"
  shows "I1 base srv (sys_close fd (epoll_ctl_del ep fd w))"
  using assms
  by (auto simp: I1_def connections_def sys_close_def epoll_ctl_del_def emit_def)

lemma I1_trace: "I1 base srv (w\<lparr>trace := t\<rparr>) = I1 base srv w"
  by (simp add: I1_def connections_def)

lemma I1_emit: "I1 base srv (emit a w) = I1 base srv w"
  by (simp add: I1_def connections_def emit_def)

lemma I1_registry_open: "I1 base srv w \<Longrightarrow> registry w \<subseteq> set (open_fds w)"
  by (auto simp: I1_def connections_def)

lemma emit_state [simp]:
  "registry (emit a w) = registry w" "open_fds (emit a w) = open_fds w"
  by (simp_all add: emit_def)

lemma set_nonblocking_cases:
  "set_nonblocking outcome fd w = (r, w') \<Longrightarrow>
     (r = - 1 \<or> r = 0) \<and> tracked w w' \<and> registry w' = registry w \<and> open_fds w' = open_fds w"
  by (cases outcome) (auto simp: set_nonblocking_def tracked_refl tracked_emit)

lemma accept_one_rejected:
  assumes i: "I1 base srv w" and c: "c = lowest_free (open_fds w)"
    and t: "tracked (w\<lparr>open_fds := c # open_fds w\<rparr>) w2"
    and r: "registry w2 = registry w" and o: "open_fds w2 = c # open_fds w"
  shows "I1 base srv (sys_close c w2) \<and> tracked w (sys_close c w2)"
proof -
  have fresh: "c \<notin> set (open_fds w)"
    unfolding c by (rule lowest_free_fresh)
  then have nr: "c \<notin> registry w2"
    using I1_registry_open [OF i] r by auto
  have "open_fds (sys_close c w2) = open_fds w" "registry (sys_close c w2) = registry w"
    using fresh o r by (simp_all add: sys_close_def emit_def)
  then have "I1 base srv (sys_close c w2)"
    using i by (simp add: I1_def connections_def)
  moreover have "tracked w (sys_close c w2)"
    using tracked_trans [OF tracked_open tracked_trans [OF t tracked_close [OF nr]]] .
  ultimately show ?thesis ..
qed

lemma accept_connections_inv:
  "I1 base srv w \<Longrightarrow>
   I1 base srv (accept_connections srv ep ps w) \<and> tracked w (accept_connections srv ep ps w)"
proof (induction srv ep ps w rule: accept_connections.induct)
  case (1 server_fd epoll_fd w)
  then show ?case by (simp add: I1_emit tracked_emit)
next
  case (2 server_fd epoll_fd e rest w)
  have "tracked w (emit (Perror ''accept'') (emit (SysAccept server_fd None) w))"
    by (rule tracked_trans [OF tracked_emit tracked_emit]) simp_all
  with 2 show ?case by (simp add: I1_emit tracked_emit Let_def)
next
  case (3 server_fd epoll_fd outcome add_ok rest w)
  define c where "c = lowest_free (open_fds w)"
  define w1 where "w1 = emit (SysAccept server_fd (Some c)) (w\<lparr>open_fds := c # open_fds w\<rparr>)"
  define w2 where "w2 = emit (Printf (''New connection: fd='' @ show_int c @ [LF])) w1"
  obtain r w3 where s: "set_nonblocking outcome c w2 = (r, w3)"
    by (cases "set_nonblocking outcome c w2") auto
  note sn = set_nonblocking_cases [OF s]
  have t2: "tracked (w\<lparr>open_fds := c # open_fds w\<rparr>) w2"
    unfolding w2_def w1_def by (rule tracked_trans [OF tracked_emit tracked_emit]) simp_all
  have st2: "registry w2 = registry w" "open_fds w2 = c # open_fds w"
    by (simp_all add: w2_def w1_def)
  have t3: "tracked (w\<lparr>open_fds := c # open_fds w\<rparr>) w3"
    using tracked_trans [OF t2] sn by blast
  have st3: "registry w3 = registry w" "open_fds w3 = c # open_fds w"
    using sn st2 by simp_all
  have fresh: "c \<notin> set (open_fds w)"
    unfolding c_def by (rule lowest_free_fresh)
  define w4 where "w4 = epoll_ctl_add add_ok epoll_fd c w3"
  define w5 where "w5 = emit (Perror ''epoll_ctl: add client'') w4"
  have eq: "accept_connections server_fd epoll_fd (Connection outcome add_ok # rest) w =
      (if r = - 1 then accept_connections server_fd epoll_fd rest (sys_close c w3)
       else if \<not> add_ok then accept_connections server_fd epoll_fd rest (sys_close c w5)
       else accept_connections server_fd epoll_fd rest w4)"
    unfolding accept_connections.simps Let_def c_def [symmetric] w1_def [symmetric]
      w2_def [symmetric] s w4_def w5_def
    by simp
  show ?case
  proof (cases "r = - 1")
    case True
    from accept_one_rejected [OF "3.prems" c_def t3 st3]
    have i: "I1 base server_fd (sys_close c w3)" and t: "tracked w (sys_close c w3)"
      by blast+
    from "3.IH"(1) [OF c_def w1_def w2_def s [symmetric] refl True i] t
    show ?thesis
      unfolding eq using True by (auto intro: tracked_trans)
  next
    case False
    show ?thesis
    proof (cases add_ok)
      case ok: True
      have i: "I1 base server_fd w4"
        using "3.prems" fresh st3 ok
        by (auto simp: I1_def connections_def w4_def epoll_ctl_add_def)
      have t: "tracked w w4"
        unfolding w4_def by (rule tracked_trans [OF tracked_open tracked_trans [OF t3 tracked_add]])
      from "3.IH"(3) [OF c_def w1_def w2_def s [symmetric] refl False w4_def _ i] ok t
      show ?thesis
        unfolding eq using False ok by (auto intro: tracked_trans)
    next
      case no: False
      have t5: "tracked (w\<lparr>open_fds := c # open_fds w\<rparr>) w5"
        unfolding w5_def w4_def
        by (rule tracked_trans [OF t3 tracked_trans [OF tracked_add tracked_emit]]) simp
      have st5: "registry w5 = registry w" "open_fds w5 = c # open_fds w"
        using st3 no by (simp_all add: w5_def w4_def epoll_ctl_add_def)
      from accept_one_rejected [OF "3.prems" c_def t5 st5]
      have i: "I1 base server_fd (sys_close c w5)" and t: "tracked w (sys_close c w5)"
        by blast+
      from "3.IH"(2) [OF c_def w1_def w2_def s [symmetric] refl False w4_def no
          i [unfolded w5_def]] t
      show ?thesis
        unfolding eq w5_def using False no by (auto intro: tracked_trans)
    qed
  qed
qed

section \<open>The event loop keeps the invariant\<close>

lemma handle_client_data_inv:
  assumes "I1 base srv w" and "fd \<notin> base"
  shows "\<exists>w'. handle_client_data a s fd ep w = Inr w' \<and> I1 base srv w' \<and> tracked w w'"
proof -
  from handle_client_data_shape [of a s fd ep w] obtain acts where
    a: "list_all is_output acts"
    and h: "handle_client_data a s fd ep w =
       Inr (sys_close fd (epoll_ctl_del ep fd
         (w\<lparr>trace := trace w
              @ SysRead fd (BUFFER_SIZE - 1) (sys_read s (BUFFER_SIZE - 1)) # acts\<rparr>)))"
    by blast
  let ?w1 = "w\<lparr>trace := trace w
              @ SysRead fd (BUFFER_SIZE - 1) (sys_read s (BUFFER_SIZE - 1)) # acts\<rparr>"
  have "list_all neutral (SysRead fd (BUFFER_SIZE - 1) (sys_read s (BUFFER_SIZE - 1)) # acts)"
    using outputs_neutral [OF a] by simp
  then have "tracked w ?w1" by (rule tracked_log)
  then have "tracked w (sys_close fd (epoll_ctl_del ep fd ?w1))"
    by (rule tracked_trans [OF _ tracked_teardown])
  moreover have "I1 base srv (sys_close fd (epoll_ctl_del ep fd ?w1))"
    using assms by (intro I1_teardown) (simp add: I1_trace)
  ultimately show ?thesis using h by simp
qed

lemma process_events_inv:
  assumes "I1 base srv w" and "list_all (client_or_listener base srv) es"
  shows "\<exists>w'. process_events srv ep es w = Inr w' \<and> I1 base srv w' \<and> tracked w w'"
  using assms
proof (induction es arbitrary: w)
  case Nil
  then show ?case by (simp add: tracked_refl)
next
  case (Cons e es)
  from Cons.prems have e: "client_or_listener base srv e"
    and es: "list_all (client_or_listener base srv) es"
    by simp_all
  have step: "\<exists>w'. process_events srv ep es w1 = Inr w' \<and> I1 base srv w' \<and> tracked w w'"
    if "I1 base srv w1" and "tracked w w1" for w1
    using Cons.IH [OF that(1) es] that(2) by (auto intro: tracked_trans)
  show ?case
  proof (cases "events e AND (EPOLLERR OR EPOLLHUP) \<noteq> 0")
    case True
    with e have nb: "data_fd e \<notin> base"
      by (auto simp: client_or_listener_def split: if_splits)
    let ?w0 = "emit (Stderr (''epoll error on fd '' @ show_int (data_fd e) @ [LF])) w"
    have "I1 base srv (sys_close (data_fd e) (epoll_ctl_del ep (data_fd e) ?w0))"
      using Cons.prems(1) nb by (intro I1_teardown) (simp_all add: I1_emit)
    moreover have "tracked w (sys_close (data_fd e) (epoll_ctl_del ep (data_fd e) ?w0))"
      by (rule tracked_trans [OF tracked_emit tracked_teardown]) simp
    ultimately show ?thesis
      using step True by (simp add: Let_def)
  next
    case False
    show ?thesis
    proof (cases "data_fd e = srv")
      case True
      from accept_connections_inv [OF Cons.prems(1), of ep "pending e"] step
      show ?thesis
        using False True by (simp add: Let_def)
    next
      case client: False
      with e have nb: "data_fd e \<notin> base"
        by (simp add: client_or_listener_def)
      show ?thesis
      proof (cases "events e AND EPOLLIN \<noteq> 0")
        case True
        from handle_client_data_inv [OF Cons.prems(1) nb, of "alloc_ok e" "incoming e" ep]
        obtain w1 where "handle_client_data (alloc_ok e) (incoming e) (data_fd e) ep w = Inr w1"
          "I1 base srv w1" "tracked w w1"
          by blast
        with step [of w1] show ?thesis
          using False client True by (simp add: Let_def)
      next
        case False
        with step [OF Cons.prems(1) tracked_refl] show ?thesis
          using \<open>\<not> events e AND (EPOLLERR OR EPOLLHUP) \<noteq> 0\<close> client by (simp add: Let_def)
      qed
    qed
  qed
qed

lemma event_loop_inv:
  assumes "I1 base srv w" and "expected_waits base srv waits"
  shows "\<exists>w'. event_loop srv ep waits w = Inr (Blocked w') \<and> I1 base srv w' \<and> tracked w w'"
  using assms
proof (induction waits arbitrary: w)
  case Nil
  then show ?case by (simp add: tracked_refl)
next
  case (Cons b waits)
  show ?case
  proof (cases b)
    case WaitFailed
    with Cons.prems show ?thesis by simp
  next
    case (Ready es)
    with Cons.prems have es: "list_all (client_or_listener base srv) (take MAX_EVENTS es)"
      and rest: "expected_waits base srv waits"
      by (auto simp: list_all_iff dest: in_set_takeD)
    from process_events_inv [OF Cons.prems(1) es, of ep] obtain w1 where
      w1: "process_events srv ep (take MAX_EVENTS es) w = Inr w1" "I1 base srv w1" "tracked w w1"
      by blast
    from Cons.IH [OF w1(2) rest] w1(1,3) Ready show ?thesis
      by (auto intro: tracked_trans)
  qed
qed

lemma teardown_record:
  "sys_close fd (epoll_ctl_del ep fd (w\<lparr>trace := trace w @ acts\<rparr>)) =
     w\<lparr>registry := registry w - {fd}, open_fds := removeAll fd (open_fds w),
       trace := trace w @ acts @ [EpollCtlDel ep fd, SysClose fd]\<rparr>"
  by (simp add: sys_close_def epoll_ctl_del_def emit_def)

lemma client_event_step:
  assumes "data_fd e \<noteq> srv"
    and "events e AND (EPOLLERR OR EPOLLHUP) \<noteq> 0 \<or> events e AND EPOLLIN \<noteq> 0"
  shows "\<exists>acts. list_all neutral acts \<and>
           process_events srv ep (e # es) w =
             process_events srv ep es
               (w\<lparr>registry := registry w - {data_fd e},
                  open_fds := removeAll (data_fd e) (open_fds w),
                  trace := trace w @ acts @ [EpollCtlDel ep (data_fd e), SysClose (data_fd e)]\<rparr>)"
proof (cases "events e AND (EPOLLERR OR EPOLLHUP) \<noteq> 0")
  case True
  let ?acts = "[Stderr (''epoll error on fd '' @ show_int (data_fd e) @ [LF])]"
  have "emit (Stderr (''epoll error on fd '' @ show_int (data_fd e) @ [LF])) w =
          w\<lparr>trace := trace w @ ?acts\<rparr>"
    by (simp add: emit_def)
  then have "process_events srv ep (e # es) w =
      process_events srv ep es
        (sys_close (data_fd e) (epoll_ctl_del ep (data_fd e) (w\<lparr>trace := trace w @ ?acts\<rparr>)))"
    using True by (simp add: Let_def)
  then show ?thesis
    unfolding teardown_record by (intro exI [of _ ?acts]) simp
next
  case False
  with assms(2) have rd: "events e AND EPOLLIN \<noteq> 0" by blast
  from handle_client_data_shape [of "alloc_ok e" "incoming e" "data_fd e" ep w]
  obtain acts where a: "list_all is_output acts"
    and h: "handle_client_data (alloc_ok e) (incoming e) (data_fd e) ep w =
       Inr (sys_close (data_fd e) (epoll_ctl_del ep (data_fd e)
         (w\<lparr>trace := trace w
              @ SysRead (data_fd e) (BUFFER_SIZE - 1) (sys_read (incoming e) (BUFFER_SIZE - 1))
                # acts\<rparr>)))"
    by blast
  let ?acts = "SysRead (data_fd e) (BUFFER_SIZE - 1) (sys_read (incoming e) (BUFFER_SIZE - 1)) # acts"
  have n: "list_all neutral ?acts"
    using outputs_neutral [OF a] by simp
  have "process_events srv ep (e # es) w =
      process_events srv ep es
        (sys_close (data_fd e) (epoll_ctl_del ep (data_fd e) (w\<lparr>trace := trace w @ ?acts\<rparr>)))"
    using False rd assms(1) h by (simp add: Let_def)
  with n show ?thesis
    unfolding teardown_record by (intro exI [of _ ?acts]) simp
qed

lemma I1_after_teardown:
  assumes "I1 base srv w" and "fd \<notin> base"
  shows "I1 base srv (w\<lparr>registry := registry w - {fd}, open_fds := removeAll fd (open_fds w),
                        trace := t\<rparr>)"
  using assms by (auto simp: I1_def connections_def)

lemma complete_connections:
  assumes "I1 base srv w" and "list_all (client_event base) es"
  shows "\<exists>w'. process_events srv ep es w = Inr w' \<and> I1 base srv w' \<and>
           connections base w' = connections base w - data_fd ` set es"
  using assms
proof (induction es arbitrary: w)
  case Nil
  then show ?case by simp
next
  case (Cons e es)
  from Cons.prems(2) have e: "client_event base e" and es: "list_all (client_event base) es"
    by simp_all
  from e have nb: "data_fd e \<notin> base"
    and bits: "events e AND (EPOLLERR OR EPOLLHUP) \<noteq> 0 \<or> events e AND EPOLLIN \<noteq> 0"
    by (simp_all add: client_event_def)
  from Cons.prems(1) nb have ns: "data_fd e \<noteq> srv"
    by (auto simp: I1_def)
  from client_event_step [OF ns bits, of ep es w] obtain acts where
    st: "process_events srv ep (e # es) w =
             process_events srv ep es
               (w\<lparr>registry := registry w - {data_fd e},
                  open_fds := removeAll (data_fd e) (open_fds w),
                  trace := trace w @ acts @ [EpollCtlDel ep (data_fd e), SysClose (data_fd e)]\<rparr>)"
    by blast
  let ?w1 = "w\<lparr>registry := registry w - {data_fd e},
                  open_fds := removeAll (data_fd e) (open_fds w),
                  trace := trace w @ acts @ [EpollCtlDel ep (data_fd e), SysClose (data_fd e)]\<rparr>"
  have i1: "I1 base srv ?w1"
    by (rule I1_after_teardown [OF Cons.prems(1) nb])
  have c1: "connections base ?w1 = connections base w - {data_fd e}"
    by (auto simp: connections_def)
  from Cons.IH [OF i1 es] obtain w' where
    "process_events srv ep es ?w1 = Inr w'" "I1 base srv w'"
    "connections base w' = connections base ?w1 - data_fd ` set es"
    by blast
  then show ?case
    unfolding st c1 by auto
qed

lemma event_loop_append:
  "event_loop srv ep (ws @ vs) w =
     (case event_loop srv ep ws w of
        Inr (Blocked w1) \<Rightarrow> event_loop srv ep vs w1
      | r \<Rightarrow> r)"
proof (induction srv ep ws w rule: event_loop.induct)
  case (1 server_fd epoll_fd w)
  then show ?case by simp
next
  case (2 server_fd epoll_fd rest w)
  then show ?case by simp
next
  case (3 server_fd epoll_fd es rest w)
  then show ?case
    by (cases "process_events server_fd epoll_fd (take MAX_EVENTS es) w") simp_all
qed

lemma client_event_expected:
  "srv \<in> base \<Longrightarrow> list_all (client_event base) es \<Longrightarrow>
   list_all (client_or_listener base srv) es"
  by (auto simp: list_all_iff client_event_def client_or_listener_def)

lemma complete_run:
  assumes i: "I1 base srv w'" and t: "tracked w w'"
    and l: "event_loop srv ep waits w = Inr (Blocked w')"
    and n: "length final \<le> MAX_EVENTS" and c: "list_all (client_event base) final"
    and a: "connections base w' \<subseteq> data_fd ` set final"
  shows "\<exists>w''. event_loop srv ep (waits @ [Ready final]) w = Inr (Blocked w'') \<and>
           closes_unregistered (registry w) (new_actions w w'') \<and>
           connections base w'' = {} \<and> registry w'' = {srv}"
proof -
  from i have sb: "srv \<in> base" by (simp add: I1_def)
  from complete_connections [OF i c, of ep] obtain w'' where
    p: "process_events srv ep final w' = Inr w''" and i'': "I1 base srv w''"
    and c'': "connections base w'' = connections base w' - data_fd ` set final"
    by blast
  from process_events_inv [OF i client_event_expected [OF sb c], of ep] p
  have "tracked w' w''" by simp
  with t have "tracked w w''" by (rule tracked_trans)
  then have "closes_unregistered (registry w) (new_actions w w'')"
    by (rule tracked_new_actions)
  moreover have "connections base w'' = {}"
    using c'' a by blast
  moreover from this i'' have "registry w'' = {srv}"
    by (simp add: I1_def)
  moreover have "event_loop srv ep (waits @ [Ready final]) w = Inr (Blocked w'')"
    using l n p by (simp add: event_loop_append)
  ultimately show ?thesis by blast
qed

section \<open>A run of the server\<close>

lemma lowest_free_5: "lowest_free [4, 3, 0, 1, 2] = 5"
  by (simp add: lowest_free_def upt_rec)

lemma lowest_free_3: "lowest_free [0, 1, 2] = 3"
  by (simp add: lowest_free_def upt_rec)

lemma lowest_free_4: "lowest_free [3, 0, 1, 2] = 4"
  by (simp add: lowest_free_def upt_rec)

lemma accept_one:
  "accept_connections 3 4 [Connection FcntlOk True]
     \<lparr>registry = {3}, open_fds = [4, 3, 0, 1, 2], trace = t\<rparr> =
   \<lparr>registry = {3, 5}, open_fds = [5, 4, 3, 0, 1, 2],
    trace = t @ [SysAccept 3 (Some 5), Printf (''New connection: fd=5'' @ [LF]),
                 EpollCtlAdd 4 5 True, SysAccept 3 None]\<rparr>"
proof -
  have s: "show_int 5 = ''5''"
    by (simp add: show_int_def dec.simps)
  show ?thesis
    by (simp add: Let_def lowest_free_5 set_nonblocking_def epoll_ctl_add_def emit_def s
        insert_commute)
qed

lemma accept_batch:
  "event_loop 3 4
     [Ready [\<lparr>events = EPOLLIN, data_fd = 3, alloc_ok = True, incoming = Sock [] PeerOpen,
              pending = [Connection FcntlOk True]\<rparr>]]
     \<lparr>registry = {3}, open_fds = [4, 3, 0, 1, 2], trace = t\<rparr> =
   Inr (Blocked
     \<lparr>registry = {3, 5}, open_fds = [5, 4, 3, 0, 1, 2],
      trace = t @ [SysAccept 3 (Some 5), Printf (''New connection: fd=5'' @ [LF]),
                   EpollCtlAdd 4 5 True, SysAccept 3 None]\<rparr>)"
  by (simp add: MAX_EVENTS_def Let_def EPOLLIN_def EPOLLERR_def EPOLLHUP_def accept_one
      del: accept_connections.simps)

lemma serve_one_connection:
  "event_loop 3 4
     [Ready [\<lparr>events = EPOLLIN, data_fd = 3, alloc_ok = True, incoming = Sock [] PeerOpen,
              pending = [Connection FcntlOk True]\<rparr>],
      Ready [\<lparr>events = EPOLLIN, data_fd = 5, alloc_ok = True,
              incoming = Sock (''GET / HTTP/1.1'' @ [CR, LF, CR, LF]) PeerOpen,
              pending = []\<rparr>]]
     \<lparr>registry = {3}, open_fds = [4, 3, 0, 1, 2], trace = t\<rparr> =
   Inr (Blocked
     \<lparr>registry = {3}, open_fds = [4, 3, 0, 1, 2],
      trace = t @ [SysAccept 3 (Some 5), Printf (''New connection: fd=5'' @ [LF]),
               EpollCtlAdd 4 5 True, SysAccept 3 None,
               SysRead 5 4095 (Bytes (''GET / HTTP/1.1'' @ [CR, LF, CR, LF])),
               Printf (request_log \<lparr>method = ''GET'', url = ''/''\<rparr>),
               SysWrite 5 (wire_form 200 ''OK'' ''text/html'' html_body),
               EpollCtlDel 4 5, SysClose 5]\<rparr>)"
proof -
  have b1: "process_events 3 4
      [\<lparr>events = EPOLLIN, data_fd = 3, alloc_ok = True, incoming = Sock [] PeerOpen,
              pending = [Connection FcntlOk True]\<rparr>]
      \<lparr>registry = {3}, open_fds = [4, 3, 0, 1, 2], trace = t\<rparr> =
    Inr \<lparr>registry = {3, 5}, open_fds = [5, 4, 3, 0, 1, 2],
         trace = t @ [SysAccept 3 (Some 5), Printf (''New connection: fd=5'' @ [LF]),
                 EpollCtlAdd 4 5 True, SysAccept 3 None]\<rparr>"
    by (simp add: Let_def EPOLLIN_def EPOLLERR_def EPOLLHUP_def accept_one
        del: accept_connections.simps)
  have b2: "process_events 3 4
      [\<lparr>events = EPOLLIN, data_fd = 5, alloc_ok = True,
              incoming = Sock (''GET / HTTP/1.1'' @ [CR, LF, CR, LF]) PeerOpen,
              pending = []\<rparr>]
      \<lparr>registry = {3, 5}, open_fds = [5, 4, 3, 0, 1, 2], trace = u\<rparr> =
    Inr \<lparr>registry = {3}, open_fds = [4, 3, 0, 1, 2],
        trace = u @ [SysRead 5 4095 (Bytes (''GET / HTTP/1.1'' @ [CR, LF, CR, LF])),
                 Printf (request_log \<lparr>method = ''GET'', url = ''/''\<rparr>),
                 SysWrite 5 (wire_form 200 ''OK'' ''text/html'' html_body),
                 EpollCtlDel 4 5, SysClose 5]\<rparr>" for u
    using drive_get_root_after [of u]
    by (simp add: Let_def EPOLLIN_def EPOLLERR_def EPOLLHUP_def)
  have tk: "take MAX_EVENTS [e] = [e]" for e :: ready_event
    by (simp add: MAX_EVENTS_def)
  show ?thesis
    by (simp only: event_loop.simps tk b1 b2 sum.case) simp
qed

section \<open>C1: a read that would block\<close>

text \<open>
  C1 as stated fails: when the read on a registered, open client handle would
  block, the driver removes the handle from the registry and closes it.
\<close>

theorem C1_counterexample:
  "handle_client_data True (Sock [] PeerOpen) 5 4
     \<lparr>registry = {3, 5}, open_fds = [5, 4, 3, 0, 1, 2], trace = []\<rparr> =
   Inr \<lparr>registry = {3}, open_fds = [4, 3, 0, 1, 2],
        trace = [SysRead 5 4095 (Failed EAGAIN), EpollCtlDel 4 5, SysClose 5]\<rparr>"
  by (simp add: handle_client_data_def BUFFER_SIZE_def emit_def sys_close_def epoll_ctl_del_def
      insert_Diff_if)

text \<open>
  C1 (as amended): for every Readable event on a client handle where the read
  would block, the driver writes no response and reports no error, removes the
  handle from the registry and closes it. The connection does not stay open and
  nothing is kept of it.
\<close>

theorem C1_would_block_tears_down:
  assumes "sys_read s (BUFFER_SIZE - 1) = Failed EAGAIN"
  shows "handle_client_data a s fd ep w =
     Inr (w\<lparr>registry := registry w - {fd},
            open_fds := removeAll fd (open_fds w),
            trace := trace w @ [SysRead fd (BUFFER_SIZE - 1) (Failed EAGAIN),
                                EpollCtlDel ep fd, SysClose fd]\<rparr>)"
  using assms
  by (simp add: handle_client_data_def emit_def sys_close_def epoll_ctl_del_def)

theorem C1_would_block_tears_down_witness:
  "sys_read (Sock [] PeerOpen) (BUFFER_SIZE - 1) = Failed EAGAIN \<and>
   handle_client_data True (Sock [] PeerOpen) 7 4
     \<lparr>registry = {3, 5, 7}, open_fds = [7, 5, 4, 3, 0, 1, 2], trace = []\<rparr> =
   Inr \<lparr>registry = {3, 5}, open_fds = [5, 4, 3, 0, 1, 2],
        trace = [SysRead 7 (BUFFER_SIZE - 1) (Failed EAGAIN), EpollCtlDel 4 7, SysClose 7]\<rparr>"
proof -
  have r: "sys_read (Sock [] PeerOpen) (BUFFER_SIZE - 1) = Failed EAGAIN"
    by simp
  from C1_would_block_tears_down [OF r, of True 7 4
      "\<lparr>registry = {3, 5, 7}, open_fds = [7, 5, 4, 3, 0, 1, 2], trace = []\<rparr>"] r
  show ?thesis
    by (simp add: insert_Diff_if)
qed

section \<open>C2: one read for each Readable event\<close>

text \<open>
  C2 as stated fails: with a complete request of 18 bytes queued on the socket the
  driver makes a single read, which returns the 18 bytes; it observes neither
  would-block nor end of stream nor a full buffer before it answers, closes the
  handle and returns to the loop.
\<close>

theorem C2_counterexample:
  "handle_client_data True (Sock (''GET / HTTP/1.1'' @ [CR, LF, CR, LF]) PeerOpen) 5 4
     \<lparr>registry = {3, 5}, open_fds = [5, 4, 3, 0, 1, 2], trace = []\<rparr> =
   Inr \<lparr>registry = {3}, open_fds = [4, 3, 0, 1, 2],
        trace = [SysRead 5 4095 (Bytes (''GET / HTTP/1.1'' @ [CR, LF, CR, LF])),
                 Printf (request_log \<lparr>method = ''GET'', url = ''/''\<rparr>),
                 SysWrite 5 (wire_form 200 ''OK'' ''text/html'' html_body),
                 EpollCtlDel 4 5, SysClose 5]\<rparr> \<and>
   \<not> stops_draining (4095, Bytes (''GET / HTTP/1.1'' @ [CR, LF, CR, LF]))"
  using drive_get_root by simp

text \<open>
  C2 (as amended): for every Readable event on a client handle the driver calls
  \<^verbatim>\<open>read\<close> exactly once, for at most \<open>BUFFER_SIZE - 1\<close> bytes, and returns control
  to the event loop after handling the result of that one call, with the handle
  removed from the registry and closed.
\<close>

theorem C2_single_read:
  "\<exists>w'. handle_client_data a s fd ep w = Inr w' \<and>
         reads (new_actions w w') = [(BUFFER_SIZE - 1, sys_read s (BUFFER_SIZE - 1))] \<and>
         registry w' = registry w - {fd} \<and> open_fds w' = removeAll fd (open_fds w)"
proof -
  from handle_client_data_shape [of a s fd ep w] obtain acts where
    a: "list_all is_output acts"
    and h: "handle_client_data a s fd ep w =
       Inr (sys_close fd (epoll_ctl_del ep fd
         (w\<lparr>trace := trace w
              @ SysRead fd (BUFFER_SIZE - 1) (sys_read s (BUFFER_SIZE - 1)) # acts\<rparr>)))"
    by blast
  let ?w = "sys_close fd (epoll_ctl_del ep fd
         (w\<lparr>trace := trace w
              @ SysRead fd (BUFFER_SIZE - 1) (sys_read s (BUFFER_SIZE - 1)) # acts\<rparr>))"
  have t: "trace ?w = trace w @ (SysRead fd (BUFFER_SIZE - 1) (sys_read s (BUFFER_SIZE - 1)) # acts
             @ [EpollCtlDel ep fd, SysClose fd])"
    by (simp add: teardown_state)
  have "reads (new_actions w ?w) = [(BUFFER_SIZE - 1, sys_read s (BUFFER_SIZE - 1))]"
    unfolding new_actions_append [OF t] using reads_outputs [OF a]
    by (simp add: reads_append)
  with h show ?thesis
    by (simp add: teardown_state)
qed

section \<open>C3: deregistration before close, and invariant I1\<close>

text \<open>
  C3, from any state in which I1 holds. First, every event on a client handle that
  carries an Error, HangUp or Readable bit (whatever the read then yields: a
  request answered, a parse failure, end of stream, would-block or an error) is
  handled by a teardown: after actions that neither touch the registry nor close
  anything, the loop calls \<^verbatim>\<open>epoll_ctl\<close> with \<^verbatim>\<open>EPOLL_CTL_DEL\<close> on the handle and then
  \<^verbatim>\<open>close\<close>, the handle is gone from the registry and from the open descriptors,
  and the loop goes on with the next event. Second, for every sequence of
  \<^verbatim>\<open>epoll_wait\<close> results whose events are Readable events on the listening handle or
  events on handles that are not the process's own, the loop handles all of them
  without a fault and waits again; no handle is registered at the moment it is
  closed; I1 holds again: besides the listening handle the registry holds exactly
  the live connections. Third, once every connection that is then live has had its
  event (one more result of \<^verbatim>\<open>epoll_wait\<close> with an event for each of them), no
  connection is live and the registry holds the listening handle only.
\<close>

theorem C3_deregister_before_close:
  assumes "I1 base server_fd w"
  shows
    "(data_fd e \<noteq> server_fd \<and>
      (events e AND (EPOLLERR OR EPOLLHUP) \<noteq> 0 \<or> events e AND EPOLLIN \<noteq> 0) \<longrightarrow>
        (\<exists>acts. list_all neutral acts \<and>
           process_events server_fd epoll_fd (e # es) w =
             process_events server_fd epoll_fd es
               (w\<lparr>registry := registry w - {data_fd e},
                  open_fds := removeAll (data_fd e) (open_fds w),
                  trace := trace w @ acts
                           @ [EpollCtlDel epoll_fd (data_fd e), SysClose (data_fd e)]\<rparr>))) \<and>
     (expected_waits base server_fd waits \<longrightarrow>
        (\<exists>w'. event_loop server_fd epoll_fd waits w = Inr (Blocked w') \<and>
           closes_unregistered (registry w) (new_actions w w') \<and>
           I1 base server_fd w' \<and>
           (connections base w' = {} \<longrightarrow> registry w' = {server_fd}) \<and>
           (\<forall>final. length final \<le> MAX_EVENTS \<and> list_all (client_event base) final \<and>
                     connections base w' \<subseteq> data_fd ` set final \<longrightarrow>
              (\<exists>w''. event_loop server_fd epoll_fd (waits @ [Ready final]) w = Inr (Blocked w'') \<and>
                 closes_unregistered (registry w) (new_actions w w'') \<and>
                 connections base w'' = {} \<and> registry w'' = {server_fd}))))"
proof (intro conjI impI)
  assume "data_fd e \<noteq> server_fd \<and>
      (events e AND (EPOLLERR OR EPOLLHUP) \<noteq> 0 \<or> events e AND EPOLLIN \<noteq> 0)"
  then show "\<exists>acts. list_all neutral acts \<and>
           process_events server_fd epoll_fd (e # es) w =
             process_events server_fd epoll_fd es
               (w\<lparr>registry := registry w - {data_fd e},
                  open_fds := removeAll (data_fd e) (open_fds w),
                  trace := trace w @ acts
                           @ [EpollCtlDel epoll_fd (data_fd e), SysClose (data_fd e)]\<rparr>)"
    using client_event_step [of e server_fd epoll_fd es w] by blast
next
  assume ex: "expected_waits base server_fd waits"
  from event_loop_inv [OF assms ex, of epoll_fd] obtain w' where
    l: "event_loop server_fd epoll_fd waits w = Inr (Blocked w')"
    and i: "I1 base server_fd w'" and t: "tracked w w'"
    by blast
  from i have "connections base w' = {} \<longrightarrow> registry w' = {server_fd}"
    by (simp add: I1_def)
  moreover have "\<forall>final. length final \<le> MAX_EVENTS \<and> list_all (client_event base) final \<and>
                     connections base w' \<subseteq> data_fd ` set final \<longrightarrow>
              (\<exists>w''. event_loop server_fd epoll_fd (waits @ [Ready final]) w = Inr (Blocked w'') \<and>
                 closes_unregistered (registry w) (new_actions w w'') \<and>
                 connections base w'' = {} \<and> registry w'' = {server_fd})"
    using complete_run [OF i t l] by blast
  ultimately show "\<exists>w'. event_loop server_fd epoll_fd waits w = Inr (Blocked w') \<and>
           closes_unregistered (registry w) (new_actions w w') \<and>
           I1 base server_fd w' \<and>
           (connections base w' = {} \<longrightarrow> registry w' = {server_fd}) \<and>
           (\<forall>final. length final \<le> MAX_EVENTS \<and> list_all (client_event base) final \<and>
                     connections base w' \<subseteq> data_fd ` set final \<longrightarrow>
              (\<exists>w''. event_loop server_fd epoll_fd (waits @ [Ready final]) w = Inr (Blocked w'') \<and>
                 closes_unregistered (registry w) (new_actions w w'') \<and>
                 connections base w'' = {} \<and> registry w'' = {server_fd}))"
    using l i tracked_new_actions [OF t] by blast
qed

theorem C3_deregister_before_close_witness:
  "I1 {0, 1, 2, 3, 4} 3 \<lparr>registry = {3}, open_fds = [4, 3, 0, 1, 2], trace = []\<rparr> \<and>
   expected_waits {0, 1, 2, 3, 4} 3
     [Ready [\<lparr>events = EPOLLIN, data_fd = 3, alloc_ok = True, incoming = Sock [] PeerOpen,
              pending = [Connection FcntlOk True]\<rparr>]] \<and>
   event_loop 3 4
     [Ready [\<lparr>events = EPOLLIN, data_fd = 3, alloc_ok = True, incoming = Sock [] PeerOpen,
              pending = [Connection FcntlOk True]\<rparr>]]
     \<lparr>registry = {3}, open_fds = [4, 3, 0, 1, 2], trace = []\<rparr> =
   Inr (Blocked
     \<lparr>registry = {3, 5}, open_fds = [5, 4, 3, 0, 1, 2],
      trace = [SysAccept 3 (Some 5), Printf (''New connection: fd=5'' @ [LF]),
               EpollCtlAdd 4 5 True, SysAccept 3 None]\<rparr>) \<and>
   list_all (client_event {0, 1, 2, 3, 4})
     [\<lparr>events = EPOLLIN, data_fd = 5, alloc_ok = True,
       incoming = Sock (''GET / HTTP/1.1'' @ [CR, LF, CR, LF]) PeerOpen, pending = []\<rparr>] \<and>
   (\<exists>w''. event_loop 3 4
      ([Ready [\<lparr>events = EPOLLIN, data_fd = 3, alloc_ok = True, incoming = Sock [] PeerOpen,
               pending = [Connection FcntlOk True]\<rparr>]] @
       [Ready [\<lparr>events = EPOLLIN, data_fd = 5, alloc_ok = True,
               incoming = Sock (''GET / HTTP/1.1'' @ [CR, LF, CR, LF]) PeerOpen,
               pending = []\<rparr>]])
      \<lparr>registry = {3}, open_fds = [4, 3, 0, 1, 2], trace = []\<rparr> = Inr (Blocked w'') \<and>
      closes_unregistered {3} (trace w'') \<and>
      connections {0, 1, 2, 3, 4} w'' = {} \<and> registry w'' = {3}) \<and>
   I1 {0, 1, 2, 3, 4} 3 \<lparr>registry = {3, 5}, open_fds = [5, 4, 3, 0, 1, 2], trace = []\<rparr> \<and>
   (\<exists>acts. list_all neutral acts \<and>
      process_events 3 4
        [\<lparr>events = EPOLLHUP, data_fd = 5, alloc_ok = True, incoming = Sock [] PeerClosed,
          pending = []\<rparr>]
        \<lparr>registry = {3, 5}, open_fds = [5, 4, 3, 0, 1, 2], trace = []\<rparr> =
      Inr \<lparr>registry = {3}, open_fds = [4, 3, 0, 1, 2],
           trace = acts @ [EpollCtlDel 4 5, SysClose 5]\<rparr>)"
proof -
  let ?B = "{0, 1, 2, 3, 4} :: int set"
  let ?w0 = "\<lparr>registry = {3}, open_fds = [4, 3, 0, 1, 2], trace = []\<rparr>"
  let ?w1 = "\<lparr>registry = {3, 5}, open_fds = [5, 4, 3, 0, 1, 2], trace = []\<rparr>"
  let ?acc = "\<lparr>events = EPOLLIN, data_fd = 3, alloc_ok = True, incoming = Sock [] PeerOpen,
              pending = [Connection FcntlOk True]\<rparr>"
  let ?get = "\<lparr>events = EPOLLIN, data_fd = 5, alloc_ok = True,
       incoming = Sock (''GET / HTTP/1.1'' @ [CR, LF, CR, LF]) PeerOpen, pending = []\<rparr>"
  let ?hup = "\<lparr>events = EPOLLHUP, data_fd = 5, alloc_ok = True, incoming = Sock [] PeerClosed,
          pending = []\<rparr>"
  let ?wa = "\<lparr>registry = {3, 5}, open_fds = [5, 4, 3, 0, 1, 2],
      trace = [SysAccept 3 (Some 5), Printf (''New connection: fd=5'' @ [LF]),
               EpollCtlAdd 4 5 True, SysAccept 3 None]\<rparr>"
  have i0: "I1 ?B 3 ?w0" and i1: "I1 ?B 3 ?w1"
    by (auto simp: I1_def connections_def)
  have e0: "expected_waits ?B 3 [Ready [?acc]]"
    by (simp add: client_or_listener_def EPOLLIN_def EPOLLERR_def EPOLLHUP_def)
  have l0: "event_loop 3 4 [Ready [?acc]] ?w0 = Inr (Blocked ?wa)"
    using accept_batch [of "[]"] by simp
  have c: "list_all (client_event ?B) [?get]"
    by (simp add: client_event_def EPOLLIN_def EPOLLERR_def EPOLLHUP_def)
  have n: "length [?get] \<le> MAX_EVENTS"
    by (simp add: MAX_EVENTS_def)
  have s: "connections ?B ?wa \<subseteq> data_fd ` set [?get]"
    by (auto simp: connections_def)
  from C3_deregister_before_close [OF i0, of ?acc 4 "[]" "[Ready [?acc]]"] e0
  obtain w' where l: "event_loop 3 4 [Ready [?acc]] ?w0 = Inr (Blocked w')"
    and f: "\<forall>final. length final \<le> MAX_EVENTS \<and> list_all (client_event ?B) final \<and>
                     connections ?B w' \<subseteq> data_fd ` set final \<longrightarrow>
              (\<exists>w''. event_loop 3 4 ([Ready [?acc]] @ [Ready final]) ?w0 = Inr (Blocked w'') \<and>
                 closes_unregistered (registry ?w0) (new_actions ?w0 w'') \<and>
                 connections ?B w'' = {} \<and> registry w'' = {3})"
    by blast
  from l l0 have w': "w' = ?wa" by simp
  from f [unfolded w'] n c s
  have r: "\<exists>w''. event_loop 3 4 ([Ready [?acc]] @ [Ready [?get]]) ?w0 = Inr (Blocked w'') \<and>
                 closes_unregistered (registry ?w0) (new_actions ?w0 w'') \<and>
                 connections ?B w'' = {} \<and> registry w'' = {3}"
    by blast
  then have r': "\<exists>w''. event_loop 3 4 ([Ready [?acc]] @ [Ready [?get]]) ?w0 = Inr (Blocked w'') \<and>
                 closes_unregistered {3} (trace w'') \<and>
                 connections ?B w'' = {} \<and> registry w'' = {3}"
    by (simp add: new_actions_def)
  have h: "data_fd ?hup \<noteq> 3 \<and>
      (events ?hup AND (EPOLLERR OR EPOLLHUP) \<noteq> 0 \<or> events ?hup AND EPOLLIN \<noteq> 0)"
    by (simp add: EPOLLIN_def EPOLLERR_def EPOLLHUP_def)
  from C3_deregister_before_close [OF i1, of ?hup 4 "[]" "[]"] h
  have "\<exists>acts. list_all neutral acts \<and>
           process_events 3 4 [?hup] ?w1 =
             process_events 3 4 []
               (?w1\<lparr>registry := registry ?w1 - {data_fd ?hup},
                  open_fds := removeAll (data_fd ?hup) (open_fds ?w1),
                  trace := trace ?w1 @ acts
                           @ [EpollCtlDel 4 (data_fd ?hup), SysClose (data_fd ?hup)]\<rparr>)"
    by blast
  then have t: "\<exists>acts. list_all neutral acts \<and>
      process_events 3 4 [?hup] ?w1 =
      Inr \<lparr>registry = {3}, open_fds = [4, 3, 0, 1, 2],
           trace = acts @ [EpollCtlDel 4 5, SysClose 5]\<rparr>"
    by (simp add: insert_Diff_if)
  from i0 e0 l0 c r' i1 t show ?thesis
    by blast
qed

section \<open>C4: the static route policy\<close>

text \<open>
  C4: for every successfully parsed request the one response written follows the
  static table: GET of \<^verbatim>\<open>/\<close> (or of \<^verbatim>\<open>/index.html\<close>) gives 200 with the HTML body,
  GET of \<^verbatim>\<open>/data.json\<close> gives 200 with the JSON body, GET of any other target gives
  404, and any other method gives 405. Targets are compared whole: nothing is
  matched by prefix or pattern.
\<close>

theorem C4_static_route_policy:
  assumes "parse_http a request = Inr (Some req, b)"
  shows "\<exists>acts. handle_request a fd request = Inr acts \<and>
     (method req = ''GET'' \<and> url req = ''/'' \<longrightarrow>
        writes acts = [wire_form 200 ''OK'' ''text/html'' html_body]) \<and>
     (method req = ''GET'' \<and> url req = ''/index.html'' \<longrightarrow>
        writes acts = [wire_form 200 ''OK'' ''text/html'' html_body]) \<and>
     (method req = ''GET'' \<and> url req = ''/data.json'' \<longrightarrow>
        writes acts = [wire_form 200 ''OK'' ''application/json'' json_body]) \<and>
     (method req = ''GET'' \<and> url req \<notin> {''/'', ''/index.html'', ''/data.json''} \<longrightarrow>
        writes acts = [wire_form 404 ''Not Found'' ''text/plain'' ''File not found!'']) \<and>
     (method req \<noteq> ''GET'' \<longrightarrow>
        writes acts = [wire_form 405 ''Method Not Allowed'' ''text/plain'' ''Only GET supported''])"
  using handle_request_parsed [OF assms, of fd] by simp

theorem C4_static_route_policy_witness:
  "parse_http True (''GET /data.json HTTP/1.1'' @ CRLF @ CRLF @ [NUL]) =
     Inr (Some \<lparr>method = ''GET'', url = ''/data.json''\<rparr>,
          ''GET'' @ [NUL] @ ''/data.json'' @ [NUL] @ ''HTTP/1.1'' @ CRLF @ CRLF @ [NUL]) \<and>
   (\<exists>acts. handle_request True 5 (''GET /data.json HTTP/1.1'' @ CRLF @ CRLF @ [NUL]) = Inr acts \<and>
      writes acts = [wire_form 200 ''OK'' ''application/json'' json_body])"
proof -
  have p: "parse_http True (''GET /data.json HTTP/1.1'' @ CRLF @ CRLF @ [NUL]) =
     Inr (Some \<lparr>method = ''GET'', url = ''/data.json''\<rparr>,
          ''GET'' @ [NUL] @ ''/data.json'' @ [NUL] @ ''HTTP/1.1'' @ CRLF @ CRLF @ [NUL])"
    by (simp add: parse_http_def NUL_def SP_def CR_def LF_def CRLF_def strncpy_def)
  show ?thesis
    using p C4_static_route_policy [OF p, of 5] by auto
qed

section \<open>C5: the wire form of the responses\<close>

text \<open>
  C5: every payload the driver hands to \<^verbatim>\<open>write\<close> while handling an event on a client
  handle is the wire form
  \<^verbatim>\<open>HTTP/1.1 <code> <reason>\r\nContent-Type: <type>\r\nContent-Length: <n>\r\nConnection: close\r\n\r\n<body>\<close>
  of one of the five canned responses, with \<open>n\<close> the length of the body in bytes.
  In particular the request \<^verbatim>\<open>GET / HTTP/1.1\r\n\r\n\<close> is answered with \<^verbatim>\<open>200 OK\<close>, the HTML
  body and \<^verbatim>\<open>Content-Length: 35\<close>, and that body is 35 bytes long.
\<close>

theorem C5_responses_in_wire_form:
  "(\<exists>w'. handle_client_data a s fd ep w = Inr w' \<and>
      (\<forall>payload\<in>set (writes (new_actions w w')).
         \<exists>code reason ctype body.
           (code, reason, ctype, body) \<in> set canned_responses \<and>
           payload = wire_form code reason ctype body)) \<and>
   handle_request True fd (''GET / HTTP/1.1'' @ [CR, LF, CR, LF, NUL]) =
     Inr [Printf (request_log \<lparr>method = ''GET'', url = ''/''\<rparr>),
          SysWrite fd
            (''HTTP/1.1 200 OK'' @ [CR, LF] @ ''Content-Type: text/html'' @ [CR, LF]
             @ ''Content-Length: 35'' @ [CR, LF] @ ''Connection: close'' @ [CR, LF, CR, LF]
             @ ''<html><h4>Hello World!!</h4></html>'')] \<and>
   length ''<html><h4>Hello World!!</h4></html>'' = 35"
proof -
  from handle_client_data_shape [of a s fd ep w] obtain acts where
    a: "writes acts = [] \<or> (\<exists>r\<in>set canned_responses. writes acts = [response_of r])"
    and h: "handle_client_data a s fd ep w =
       Inr (sys_close fd (epoll_ctl_del ep fd
         (w\<lparr>trace := trace w
              @ SysRead fd (BUFFER_SIZE - 1) (sys_read s (BUFFER_SIZE - 1)) # acts\<rparr>)))"
    by blast
  let ?w = "sys_close fd (epoll_ctl_del ep fd
         (w\<lparr>trace := trace w
              @ SysRead fd (BUFFER_SIZE - 1) (sys_read s (BUFFER_SIZE - 1)) # acts\<rparr>))"
  have t: "trace ?w = trace w @ (SysRead fd (BUFFER_SIZE - 1) (sys_read s (BUFFER_SIZE - 1)) # acts
             @ [EpollCtlDel ep fd, SysClose fd])"
    by (simp add: teardown_state)
  have w: "writes (new_actions w ?w) = writes acts"
    unfolding new_actions_append [OF t] by (simp add: writes_append)
  have "\<forall>payload\<in>set (writes (new_actions w ?w)).
         \<exists>code reason ctype body.
           (code, reason, ctype, body) \<in> set canned_responses \<and>
           payload = wire_form code reason ctype body"
    unfolding w using a by (auto simp: response_of_def; blast)
  with h have "\<exists>w'. handle_client_data a s fd ep w = Inr w' \<and>
      (\<forall>payload\<in>set (writes (new_actions w w')).
         \<exists>code reason ctype body.
           (code, reason, ctype, body) \<in> set canned_responses \<and>
           payload = wire_form code reason ctype body)"
    by blast
  then show ?thesis
    using get_root_request [of fd] wire_200_html by simp
qed

theorem C5_responses_in_wire_form_witness:
  "handle_client_data True (Sock (''GET / HTTP/1.1'' @ [CR, LF, CR, LF]) PeerOpen) 5 4
     \<lparr>registry = {3, 5}, open_fds = [5, 4, 3, 0, 1, 2], trace = []\<rparr> =
   Inr \<lparr>registry = {3}, open_fds = [4, 3, 0, 1, 2],
        trace = [SysRead 5 4095 (Bytes (''GET / HTTP/1.1'' @ [CR, LF, CR, LF])),
                 Printf (request_log \<lparr>method = ''GET'', url = ''/''\<rparr>),
                 SysWrite 5 (wire_form 200 ''OK'' ''text/html'' html_body),
                 EpollCtlDel 4 5, SysClose 5]\<rparr> \<and>
   wire_form 200 ''OK'' ''text/html'' html_body
     \<in> set (writes (new_actions \<lparr>registry = {3, 5}, open_fds = [5, 4, 3, 0, 1, 2], trace = []\<rparr>
         \<lparr>registry = {3}, open_fds = [4, 3, 0, 1, 2],
          trace = [SysRead 5 4095 (Bytes (''GET / HTTP/1.1'' @ [CR, LF, CR, LF])),
                 Printf (request_log \<lparr>method = ''GET'', url = ''/''\<rparr>),
                 SysWrite 5 (wire_form 200 ''OK'' ''text/html'' html_body),
                 EpollCtlDel 4 5, SysClose 5]\<rparr>)) \<and>
   (\<exists>code reason ctype body.
      (code, reason, ctype, body) \<in> set canned_responses \<and>
      wire_form 200 ''OK'' ''text/html'' html_body = wire_form code reason ctype body)"
proof -
  let ?w0 = "\<lparr>registry = {3, 5}, open_fds = [5, 4, 3, 0, 1, 2], trace = []\<rparr>"
  let ?w1 = "\<lparr>registry = {3}, open_fds = [4, 3, 0, 1, 2],
          trace = [SysRead 5 4095 (Bytes (''GET / HTTP/1.1'' @ [CR, LF, CR, LF])),
                 Printf (request_log \<lparr>method = ''GET'', url = ''/''\<rparr>),
                 SysWrite 5 (wire_form 200 ''OK'' ''text/html'' html_body),
                 EpollCtlDel 4 5, SysClose 5]\<rparr>"
  have m: "wire_form 200 ''OK'' ''text/html'' html_body \<in> set (writes (new_actions ?w0 ?w1))"
    by (simp add: new_actions_def)
  from C5_responses_in_wire_form
    [of True "Sock (''GET / HTTP/1.1'' @ [CR, LF, CR, LF]) PeerOpen" 5 4 ?w0]
  have "\<forall>payload\<in>set (writes (new_actions ?w0 ?w1)).
         \<exists>code reason ctype body.
           (code, reason, ctype, body) \<in> set canned_responses \<and>
           payload = wire_form code reason ctype body"
    unfolding drive_get_root by simp
  with m drive_get_root show ?thesis
    by blast
qed

section \<open>C6: where the parser fails\<close>

text \<open>
  C6 as stated fails twice. A target that runs to the end of the buffer is accepted
  (\<^verbatim>\<open>GET /\<close> parses to GET and /), and the search for the first space does not
  stop at a line terminator (\<^verbatim>\<open>A\r\nB C\<close> parses to the method \<^verbatim>\<open>A\r\nB\<close> and
  the target C).
\<close>

theorem C6_counterexample:
  "parse_http True (''GET /'' @ [NUL]) =
     Inr (Some \<lparr>method = ''GET'', url = ''/''\<rparr>, ''GET'' @ [NUL] @ ''/'' @ [NUL]) \<and>
   parse_http True (''A'' @ [CR, LF] @ ''B C'' @ [NUL]) =
     Inr (Some \<lparr>method = ''A'' @ [CR, LF] @ ''B'', url = ''C''\<rparr>,
          ''A'' @ [CR, LF] @ ''B'' @ [NUL] @ ''C'' @ [NUL])"
  by (simp add: parse_http_def NUL_def SP_def CR_def LF_def strncpy_def)

text \<open>
  C6 (as amended): on every terminated buffer, when the allocation succeeds, the
  parser fails exactly when the string holds no space; a line terminator does not
  end the search for the first space. Otherwise it returns the bytes before the
  first space, cut to 15 bytes, as the method, and the bytes after it up to the
  next space, line terminator or end of the string, cut to 1023 bytes, as the
  target; this second step never fails.
\<close>

theorem C6_parser_tokens:
  assumes "NUL \<in> set s"
  shows "(SP \<notin> set (cstr s) \<longrightarrow> parse_http True s = Inr (None, s)) \<and>
         (SP \<in> set (cstr s) \<longrightarrow>
            (\<exists>b. parse_http True s =
               Inr (Some \<lparr>method = take 15 (method_token s),
                              url = take 1023 (target_token s)\<rparr>, b)))"
  using parse_http_fails_without_space [OF assms] parse_http_succeeds_with_space [OF assms]
  by blast

theorem C6_parser_tokens_witness:
  "NUL \<in> set (''GET /nope'' @ [CR, LF, NUL]) \<and>
   SP \<in> set (cstr (''GET /nope'' @ [CR, LF, NUL])) \<and>
   (\<exists>b. parse_http True (''GET /nope'' @ [CR, LF, NUL]) =
      Inr (Some \<lparr>method = ''GET'', url = ''/nope''\<rparr>, b)) \<and>
   NUL \<in> set (''GARBAGE'' @ [CR, LF, CR, LF, NUL]) \<and>
   SP \<notin> set (cstr (''GARBAGE'' @ [CR, LF, CR, LF, NUL])) \<and>
   parse_http True (''GARBAGE'' @ [CR, LF, CR, LF, NUL]) =
     Inr (None, ''GARBAGE'' @ [CR, LF, CR, LF, NUL])"
proof -
  have a: "NUL \<in> set (''GET /nope'' @ [CR, LF, NUL])"
    and b: "NUL \<in> set (''GARBAGE'' @ [CR, LF, CR, LF, NUL])"
    by simp_all
  have c: "cstr (''GET /nope'' @ [CR, LF, NUL]) = ''GET /nope'' @ [CR, LF]"
    and d: "cstr (''GARBAGE'' @ [CR, LF, CR, LF, NUL]) = ''GARBAGE'' @ [CR, LF, CR, LF]"
    by (simp_all add: cstr_def NUL_def CR_def LF_def)
  have e: "method_token (''GET /nope'' @ [CR, LF, NUL]) = ''GET''"
    and f: "target_token (''GET /nope'' @ [CR, LF, NUL]) = ''/nope''"
    unfolding method_token_def target_token_def c
    by (simp_all add: SP_def CR_def LF_def)
  show ?thesis
    using C6_parser_tokens [OF a] C6_parser_tokens [OF b] a b
    unfolding e f c d
    by (simp add: SP_def CR_def LF_def)
qed

section \<open>C7: a read that fills the buffer\<close>

text \<open>
  C7 as stated fails: with 5006 bytes queued that begin with \<^verbatim>\<open>GET / \<close>, the read
  fills the buffer with the first 4095 bytes; they are parsed as a complete
  request and answered with \<^verbatim>\<open>200 OK\<close>, not with a 4xx response.
\<close>

theorem C7_counterexample:
  "handle_client_data True (Sock (''GET / '' @ replicate 5000 (CHR ''A'')) PeerOpen) 5 4
     \<lparr>registry = {3, 5}, open_fds = [5, 4, 3, 0, 1, 2], trace = []\<rparr> =
   Inr \<lparr>registry = {3}, open_fds = [4, 3, 0, 1, 2],
        trace = [SysRead 5 4095 (Bytes (''GET / '' @ replicate 4089 (CHR ''A''))),
                 Printf (request_log \<lparr>method = ''GET'', url = ''/''\<rparr>),
                 SysWrite 5 (wire_form 200 ''OK'' ''text/html'' html_body),
                 EpollCtlDel 4 5, SysClose 5]\<rparr> \<and>
   length (''GET / '' @ replicate 4089 (CHR ''A'')) = BUFFER_SIZE - 1"
  unfolding handle_client_data_bytes [OF read_filled_buffer(1) handle_filled_buffer(2)]
  by (simp add: BUFFER_SIZE_def emit_def sys_close_def epoll_ctl_del_def insert_Diff_if)

text \<open>
  C7 (as amended): a read that fills the buffer (\<open>BUFFER_SIZE - 1\<close> bytes) is handled
  like every other successful read: the bytes read are terminated and parsed as
  the request, bytes queued behind them are never read, the response is the one
  the route policy gives for the parsed tokens (200 for a GET of \<^verbatim>\<open>/\<close>), and the
  handle is removed from the registry and closed. The source has no check for an
  oversized request.
\<close>

theorem C7_filled_buffer_is_parsed:
  assumes "BUFFER_SIZE - 1 \<le> length q"
  shows "\<exists>acts. handle_request a fd (take (BUFFER_SIZE - 1) q @ [NUL]) = Inr acts \<and>
           handle_client_data a (Sock q e) fd ep w =
             Inr (sys_close fd (epoll_ctl_del ep fd
               (w\<lparr>trace := trace w
                    @ SysRead fd (BUFFER_SIZE - 1) (Bytes (take (BUFFER_SIZE - 1) q)) # acts\<rparr>))) \<and>
           (\<forall>req b. parse_http a (take (BUFFER_SIZE - 1) q @ [NUL]) = Inr (Some req, b) \<and>
                    method req = ''GET'' \<and> url req = ''/'' \<longrightarrow>
              writes acts = [wire_form 200 ''OK'' ''text/html'' html_body])"
proof -
  have "q \<noteq> []" using assms by (auto simp: BUFFER_SIZE_def)
  then have r: "sys_read (Sock q e) (BUFFER_SIZE - 1) = Bytes (take (BUFFER_SIZE - 1) q)"
    by (simp add: BUFFER_SIZE_def)
  have "NUL \<in> set (take (BUFFER_SIZE - 1) q @ [NUL])" by simp
  from handle_request_returns [OF this, of a fd] obtain acts where
    h: "handle_request a fd (take (BUFFER_SIZE - 1) q @ [NUL]) = Inr acts"
    by blast
  have "\<forall>req b. parse_http a (take (BUFFER_SIZE - 1) q @ [NUL]) = Inr (Some req, b) \<and>
                    method req = ''GET'' \<and> url req = ''/'' \<longrightarrow>
              writes acts = [wire_form 200 ''OK'' ''text/html'' html_body]"
    using h by (auto dest!: handle_request_parsed [where fd = fd])
  with h handle_client_data_bytes [OF r h, of ep w] show ?thesis
    by blast
qed

theorem C7_filled_buffer_is_parsed_witness:
  "BUFFER_SIZE - 1 \<le> length (''GET / '' @ replicate 5000 (CHR ''A'')) \<and>
   parse_http True (take (BUFFER_SIZE - 1) (''GET / '' @ replicate 5000 (CHR ''A'')) @ [NUL]) =
     Inr (Some \<lparr>method = ''GET'', url = ''/''\<rparr>,
          ''GET'' @ NUL # ''/'' @ NUL # replicate 4089 (CHR ''A'') @ [NUL]) \<and>
   (\<exists>acts.
      handle_request True 5
        (take (BUFFER_SIZE - 1) (''GET / '' @ replicate 5000 (CHR ''A'')) @ [NUL]) = Inr acts \<and>
      writes acts = [wire_form 200 ''OK'' ''text/html'' html_body])"
proof -
  have l: "BUFFER_SIZE - 1 \<le> length (''GET / '' @ replicate 5000 (CHR ''A''))"
    by (simp add: BUFFER_SIZE_def)
  have p: "parse_http True
      (take (BUFFER_SIZE - 1) (''GET / '' @ replicate 5000 (CHR ''A'')) @ [NUL]) =
     Inr (Some \<lparr>method = ''GET'', url = ''/''\<rparr>,
          ''GET'' @ NUL # ''/'' @ NUL # replicate 4089 (CHR ''A'') @ [NUL])"
    unfolding read_filled_buffer(2) by (rule handle_filled_buffer(1))
  from C7_filled_buffer_is_parsed [OF l, of True 5 PeerOpen 4 "\<lparr>registry = {3, 5}, open_fds = [5, 4, 3, 0, 1, 2], trace = []\<rparr>"]
  obtain acts where
    a: "handle_request True 5
          (take (BUFFER_SIZE - 1) (''GET / '' @ replicate 5000 (CHR ''A'')) @ [NUL]) = Inr acts"
    and r: "\<forall>req b. parse_http True
          (take (BUFFER_SIZE - 1) (''GET / '' @ replicate 5000 (CHR ''A'')) @ [NUL]) =
            Inr (Some req, b) \<and> method req = ''GET'' \<and> url req = ''/'' \<longrightarrow>
          writes acts = [wire_form 200 ''OK'' ''text/html'' html_body]"
    by blast
  from r p have "writes acts = [wire_form 200 ''OK'' ''text/html'' html_body]"
    by simp
  with l p a show ?thesis
    by blast
qed

section \<open>C8: the parser writes into its input\<close>

text \<open>
  C8 as stated fails: on the request \<^verbatim>\<open>GET / HTTP/1.1\r\n\r\n\<close> the parser returns
  the pair (GET, /) and leaves a buffer that differs from its input in two bytes.
\<close>

theorem C8_counterexample:
  "parse_http True (''GET / HTTP/1.1'' @ [CR, LF, CR, LF, NUL]) =
     Inr (Some \<lparr>method = ''GET'', url = ''/''\<rparr>,
          ''GET'' @ [NUL] @ ''/'' @ [NUL] @ ''HTTP/1.1'' @ [CR, LF, CR, LF, NUL]) \<and>
   ''GET'' @ [NUL] @ ''/'' @ [NUL] @ ''HTTP/1.1'' @ [CR, LF, CR, LF, NUL] \<noteq>
   ''GET / HTTP/1.1'' @ [CR, LF, CR, LF, NUL]"
  by (simp add: parse_http_def NUL_def SP_def CR_def LF_def strncpy_def)

text \<open>
  C8 (as amended): the parser does no input or output and its result is a function
  of the buffer and of the success of the allocation. On a terminated buffer it
  returns either a request or the failure outcome. It writes into the buffer: on
  failure the buffer is unchanged, on success exactly the byte that ends the
  method token (a space, at the index that is the length of the method token) and
  the byte that ends the target token (a space, a line terminator or the
  terminator of the string, at the index one past the space plus the length of the
  target token) are overwritten with the terminator, and every other byte is left
  as it was; the request returned holds the two tokens cut to 15 and 1023 bytes.
\<close>

theorem C8_parser_frame:
  "(NUL \<in> set s \<longrightarrow> (\<exists>res b. parse_http a s = Inr (res, b))) \<and>
   (parse_http a s = Inr (res, b) \<longrightarrow>
      (res = None \<longrightarrow> b = s) \<and>
      (res \<noteq> None \<longrightarrow>
         Suc (length (method_token s)) + length (target_token s) < length s \<and>
         s ! length (method_token s) = SP \<and>
         (s ! (Suc (length (method_token s)) + length (target_token s)) = NUL \<or>
          s ! (Suc (length (method_token s)) + length (target_token s)) = SP \<or>
          s ! (Suc (length (method_token s)) + length (target_token s)) = CR \<or>
          s ! (Suc (length (method_token s)) + length (target_token s)) = LF) \<and>
         b = s[length (method_token s) := NUL,
               Suc (length (method_token s)) + length (target_token s) := NUL] \<and>
         res = Some \<lparr>method = take 15 (method_token s),
                      url = take 1023 (target_token s)\<rparr>))"
proof (intro conjI impI)
  assume "NUL \<in> set s"
  then show "\<exists>res b. parse_http a s = Inr (res, b)"
    by (rule parse_http_returns)
next
  assume "parse_http a s = Inr (res, b)" and "res = None"
  with parse_http_frame [of a s res b] show "b = s" by blast
next
  assume p: "parse_http a s = Inr (res, b)" and "res \<noteq> None"
  then obtain req where r: "res = Some req" by blast
  note f = parse_http_in_place [OF p [unfolded r]]
  show "Suc (length (method_token s)) + length (target_token s) < length s"
    by (rule f(1))
  show "s ! length (method_token s) = SP"
    by (rule f(2))
  show "s ! (Suc (length (method_token s)) + length (target_token s)) = NUL \<or>
          s ! (Suc (length (method_token s)) + length (target_token s)) = SP \<or>
          s ! (Suc (length (method_token s)) + length (target_token s)) = CR \<or>
          s ! (Suc (length (method_token s)) + length (target_token s)) = LF"
    by (rule f(3))
  show "b = s[length (method_token s) := NUL,
               Suc (length (method_token s)) + length (target_token s) := NUL]"
    by (rule f(4))
  show "res = Some \<lparr>method = take 15 (method_token s), url = take 1023 (target_token s)\<rparr>"
    unfolding r using f(5) by simp
qed

theorem C8_parser_frame_witness:
  "NUL \<in> set (''GET / HTTP/1.1'' @ [CR, LF, CR, LF, NUL]) \<and>
   parse_http True (''GET / HTTP/1.1'' @ [CR, LF, CR, LF, NUL]) =
     Inr (Some \<lparr>method = ''GET'', url = ''/''\<rparr>,
          ''GET'' @ [NUL] @ ''/'' @ [NUL] @ ''HTTP/1.1'' @ [CR, LF, CR, LF, NUL]) \<and>
   method_token (''GET / HTTP/1.1'' @ [CR, LF, CR, LF, NUL]) = ''GET'' \<and>
   target_token (''GET / HTTP/1.1'' @ [CR, LF, CR, LF, NUL]) = ''/'' \<and>
   ''GET'' @ [NUL] @ ''/'' @ [NUL] @ ''HTTP/1.1'' @ [CR, LF, CR, LF, NUL] =
     (''GET / HTTP/1.1'' @ [CR, LF, CR, LF, NUL])
       [length (method_token (''GET / HTTP/1.1'' @ [CR, LF, CR, LF, NUL])) := NUL,
        Suc (length (method_token (''GET / HTTP/1.1'' @ [CR, LF, CR, LF, NUL])))
          + length (target_token (''GET / HTTP/1.1'' @ [CR, LF, CR, LF, NUL])) := NUL] \<and>
   (''GET / HTTP/1.1'' @ [CR, LF, CR, LF, NUL]) ! 3 = SP \<and>
   (''GET / HTTP/1.1'' @ [CR, LF, CR, LF, NUL]) ! 5 = SP"
proof -
  let ?s = "''GET / HTTP/1.1'' @ [CR, LF, CR, LF, NUL]"
  have n: "NUL \<in> set ?s" by simp
  have p: "parse_http True ?s =
     Inr (Some \<lparr>method = ''GET'', url = ''/''\<rparr>,
          ''GET'' @ [NUL] @ ''/'' @ [NUL] @ ''HTTP/1.1'' @ [CR, LF, CR, LF, NUL])"
    by (simp add: parse_http_def NUL_def SP_def CR_def LF_def strncpy_def)
  have m: "method_token ?s = ''GET''" and t: "target_token ?s = ''/''"
    by (simp_all add: method_token_def target_token_def cstr_def NUL_def SP_def CR_def LF_def)
  from C8_parser_frame
    [of ?s True "Some \<lparr>method = ''GET'', url = ''/''\<rparr>"
        "''GET'' @ [NUL] @ ''/'' @ [NUL] @ ''HTTP/1.1'' @ [CR, LF, CR, LF, NUL]"] p
  have "''GET'' @ [NUL] @ ''/'' @ [NUL] @ ''HTTP/1.1'' @ [CR, LF, CR, LF, NUL] =
     ?s[length (method_token ?s) := NUL,
        Suc (length (method_token ?s)) + length (target_token ?s) := NUL]"
    and "?s ! length (method_token ?s) = SP"
    by blast+
  moreover have "?s ! 5 = SP" by (simp add: SP_def)
  ultimately show ?thesis
    using n p m t by simp
qed

section \<open>C9: the port argument\<close>

text \<open>
  C9, the code at the port argument \<^verbatim>\<open>0\<close>: \<^verbatim>\<open>main\<close> of \<^verbatim>\<open>httpd-epoll.c\<close> passes the
  result of \<^verbatim>\<open>atoi\<close> to \<^verbatim>\<open>srv_init\<close> without looking at its sign. When the system
  calls of the startup succeed (\<^verbatim>\<open>bind\<close> to port 0 lets the kernel choose a port),
  the process does not exit: it reports that it listens on port 0, enters the
  event loop, accepts a connection and answers its request.
\<close>

theorem C9_port_zero_is_served:
  "main [''httpd-epoll'', ''0'']
     \<lparr>socket_ok = True, setsockopt_ok = True, inet_pton_ok = True, bind_ok = (\<lambda>port. True),
      listen_ok = True, nonblock = FcntlOk, epoll_create_ok = True, epoll_add_ok = True\<rparr>
     [Ready [\<lparr>events = EPOLLIN, data_fd = 3, alloc_ok = True, incoming = Sock [] PeerOpen,
              pending = [Connection FcntlOk True]\<rparr>],
      Ready [\<lparr>events = EPOLLIN, data_fd = 5, alloc_ok = True,
              incoming = Sock (''GET / HTTP/1.1'' @ [CR, LF, CR, LF]) PeerOpen,
              pending = []\<rparr>]] =
   Inr (Blocked
     \<lparr>registry = {3}, open_fds = [4, 3, 0, 1, 2],
      trace = [SysSocket 3, SysBind 3 0, SysListen 3,
               Printf (''Server listening on 127.0.0.1:0'' @ [LF]),
               Printf (''Using epoll for event-driven I/O (like Node.js and nginx)'' @ [LF]),
               SysEpollCreate 4, EpollCtlAdd 4 3 True,
               Printf (''Event loop started. Waiting for connections...'' @ [LF]),
               SysAccept 3 (Some 5), Printf (''New connection: fd=5'' @ [LF]),
               EpollCtlAdd 4 5 True, SysAccept 3 None,
               SysRead 5 4095 (Bytes (''GET / HTTP/1.1'' @ [CR, LF, CR, LF])),
               Printf (request_log \<lparr>method = ''GET'', url = ''/''\<rparr>),
               SysWrite 5 (wire_form 200 ''OK'' ''text/html'' html_body),
               EpollCtlDel 4 5, SysClose 5]\<rparr>)"
proof -
  have a: "atoi ''0'' = 0"
    by (simp add: atoi_def strtol_def isspace_def isdigit_def SP_def HT_def LF_def CR_def)
  have s: "show_int 0 = ''0''"
    by (simp add: show_int_def dec.simps)
  have "main [''httpd-epoll'', ''0'']
     \<lparr>socket_ok = True, setsockopt_ok = True, inet_pton_ok = True, bind_ok = (\<lambda>port. True),
      listen_ok = True, nonblock = FcntlOk, epoll_create_ok = True, epoll_add_ok = True\<rparr> waits =
    event_loop 3 4 waits
      \<lparr>registry = {3}, open_fds = [4, 3, 0, 1, 2],
       trace = [SysSocket 3, SysBind 3 0, SysListen 3,
               Printf (''Server listening on 127.0.0.1:0'' @ [LF]),
               Printf (''Using epoll for event-driven I/O (like Node.js and nginx)'' @ [LF]),
               SysEpollCreate 4, EpollCtlAdd 4 3 True,
               Printf (''Event loop started. Waiting for connections...'' @ [LF])]\<rparr>" for waits
    unfolding main_def
    by (simp add: a s srv_init_def lowest_free_3 lowest_free_4 Let_def emit_def
        set_nonblocking_def epoll_ctl_add_def LISTENADDR_def)
  then show ?thesis
    by (simp only: serve_one_connection) simp
qed

section \<open>C10: the method is compared byte by byte\<close>

text \<open>
  C10: the response builder compares the method with \<^verbatim>\<open>GET\<close> exactly. Every parsed
  request whose method is any other byte string is answered with 405; in
  particular \<^verbatim>\<open>get / HTTP/1.1\<close>, which differs from a GET only in letter case, is
  answered with 405 and not with the 200 response of the route.
\<close>
theorem C10_method_match_is_exact:
  "(parse_http a request = Inr (Some req, b) \<and> method req \<noteq> ''GET'' \<longrightarrow>
      handle_request a fd request =
        Inr [Printf (request_log req),
             SysWrite fd (wire_form 405 ''Method Not Allowed'' ''text/plain''
                            ''Only GET supported'')]) \<and>
   handle_request True fd (''get / HTTP/1.1'' @ CRLF @ CRLF @ [NUL]) =
     Inr [Printf (request_log \<lparr>method = ''get'', url = ''/''\<rparr>),
          SysWrite fd (wire_form 405 ''Method Not Allowed'' ''text/plain''
                         ''Only GET supported'')]"
proof -
  have "parse_http True (''get / HTTP/1.1'' @ CRLF @ CRLF @ [NUL]) =
          Inr (Some \<lparr>method = ''get'', url = ''/''\<rparr>,
               ''get'' @ [NUL] @ ''/'' @ [NUL] @ ''HTTP/1.1'' @ CRLF @ CRLF @ [NUL])"
    using parse_http_tokens [of "''get''" "''/''" SP "''HTTP/1.1'' @ CRLF @ CRLF @ [NUL]"]
    by (simp add: NUL_def SP_def CR_def LF_def)
  from handle_request_parsed [OF this, of fd] show ?thesis
    by (auto dest: handle_request_parsed [of _ _ _ _ fd])
qed

theorem C10_method_match_is_exact_witness:
  "parse_http True (''Get /index.html HTTP/1.1'' @ CRLF @ CRLF @ [NUL]) =
     Inr (Some \<lparr>method = ''Get'', url = ''/index.html''\<rparr>,
          ''Get'' @ [NUL] @ ''/index.html'' @ [NUL] @ ''HTTP/1.1'' @ CRLF @ CRLF @ [NUL]) \<and>
   ''Get'' \<noteq> ''GET'' \<and>
   handle_request True 5 (''Get /index.html HTTP/1.1'' @ CRLF @ CRLF @ [NUL]) =
     Inr [Printf (request_log \<lparr>method = ''Get'', url = ''/index.html''\<rparr>),
          SysWrite 5 (wire_form 405 ''Method Not Allowed'' ''text/plain''
                        ''Only GET supported'')]"
proof -
  have p: "parse_http True (''Get /index.html HTTP/1.1'' @ CRLF @ CRLF @ [NUL]) =
     Inr (Some \<lparr>method = ''Get'', url = ''/index.html''\<rparr>,
          ''Get'' @ [NUL] @ ''/index.html'' @ [NUL] @ ''HTTP/1.1'' @ CRLF @ CRLF @ [NUL])"
    by (simp add: parse_http_def NUL_def SP_def CR_def LF_def CRLF_def strncpy_def)
  show ?thesis
    using p C10_method_match_is_exact
      [of True "''Get /index.html HTTP/1.1'' @ CRLF @ CRLF @ [NUL]"
          "\<lparr>method = ''Get'', url = ''/index.html''\<rparr>"
          "''Get'' @ [NUL] @ ''/index.html'' @ [NUL] @ ''HTTP/1.1'' @ CRLF @ CRLF @ [NUL]" 5]
    by simp
qed

end
